theory Spec2Isabelle
  imports Complex_Main "HOL-Library.Product_Lexorder" "HOL-Library.AList"
    "HOL-Library.Multiset"
begin

section \<open>Shared data model\<close>

text \<open>
  The two scripts (\<^verbatim>\<open>data_insert.py\<close>, \<^verbatim>\<open>data_retrieval.py\<close>) move pandas DataFrames
  between an external data provider, memory and a PostgreSQL database.

  \<^item> A UTC instant is a pair (calendar year, position inside that year), ordered
    lexicographically, so that \<^verbatim>\<open>.year\<close> and SQL's \<^verbatim>\<open>extract(YEAR from date)\<close> are the
    first component and comparison of instants is the order of time.
  \<^item> A binary64 value is an element of an arbitrary type \<open>'f\<close>: the development never
    computes with measurements, it only moves them, formats them, parses them and hands
    whole columns to an aggregate. Byte sizes and megabytes are exact rationals.
  \<^item> Exceptions are values of \<open>error\<close>: the built-in ones the scripts can meet, and
    \<^verbatim>\<open>EmptyDataError\<close> and \<^verbatim>\<open>ParserError\<close> of \<^verbatim>\<open>pandas.errors\<close>.
\<close>

type_synonym timestamp = "int \<times> nat"

definition year_of :: "timestamp \<Rightarrow> int" where
  "year_of t = fst t"

datatype error =
  KeyError | ValueError | IndexError | TypeError | EmptyDataError | ParserError

text \<open>The result of a call that the source wraps in
  \<^verbatim>\<open>try: ... except KeyboardInterrupt: break / except: continue\<close>.\<close>

datatype 'a outcome = Returned 'a | Raised | Interrupted

text \<open>A row of a normalized DataFrame: columns \<^verbatim>\<open>hm0\<close>, \<^verbatim>\<open>tp\<close>, \<^verbatim>\<open>date\<close>,
  \<^verbatim>\<open>data_set_id\<close> (data_insert.py, lines 179-183). The RangeIndex left by
  \<^verbatim>\<open>reset_index(drop=True)\<close> is the position in the list.\<close>

record 'f row =
  hm0 :: 'f
  tp :: 'f
  date :: timestamp
  data_set_id :: nat

text \<open>pandas \<^verbatim>\<open>unique()\<close>: the distinct values in order of first appearance.\<close>

definition unique :: "'a list \<Rightarrow> 'a list" where
  "unique xs = rev (remdups (rev xs))"

section \<open>Station eligibility (data_insert.py, lines 104-122)\<close>

text \<open>A row of \<^verbatim>\<open>available_buoys\<close>: columns \<^verbatim>\<open>id\<close>, \<^verbatim>\<open>year\<close>, \<^verbatim>\<open>filename\<close>.\<close>

record available =
  buoy_id :: string
  year :: int
  filename :: string

definition year_span :: nat where
  "year_span = 10"

text \<open>The loop of lines 115-122 over \<^verbatim>\<open>available_buoy_ids\<close>; appending to \<^verbatim>\<open>found\<close> in
  loop order is consing in recursion order.\<close>

fun select_buoys :: "available list \<Rightarrow> string list \<Rightarrow> available list list" where
  "select_buoys available_buoys [] = []"
| "select_buoys available_buoys (b # bs) =
     (if b = ''41001'' then select_buoys available_buoys bs
      else
        let d = filter (\<lambda>r. buoy_id r = b) available_buoys;
            years = unique (map year d)
        in if year_span \<le> length years then d # select_buoys available_buoys bs
           else select_buoys available_buoys bs)"

definition found :: "available list \<Rightarrow> available list list" where
  "found available_buoys =
     select_buoys available_buoys (unique (map buoy_id available_buoys))"

section \<open>Normalization of a station's table (data_insert.py, lines 163-177)\<close>

text \<open>
  A cell of a raw table is a Python object. \<open>Numeric x\<close> is a cell that \<^verbatim>\<open>astype(float)\<close>
  converts to \<open>x\<close> (a float, or a string such as \<^verbatim>\<open>"1.5"\<close>); \<open>NonNumeric s\<close> is a string
  \<open>s\<close> that \<^verbatim>\<open>float\<close> rejects, such as the unit marker \<^verbatim>\<open>"m"\<close>. Of every row only the
  index and the two cells that line 167 keeps are represented; \<open>columns\<close> lists the
  names of all columns of the table.
\<close>

datatype 'f cell = Numeric 'f | NonNumeric string

record 'f raw_row =
  time :: timestamp
  WVHT :: "'f cell"
  DPD :: "'f cell"

record 'f raw_frame =
  columns :: "string list"
  raw_rows :: "'f raw_row list"

fun to_float :: "'f cell \<Rightarrow> 'f option" where
  "to_float (Numeric x) = Some x"
| "to_float (NonNumeric s) = None"

text \<open>\<^verbatim>\<open>data[list(REQUIRED_COLUMNS)].astype(float)\<close>: every cell of both columns is
  converted; one cell that cannot be converted raises \<^verbatim>\<open>ValueError\<close> for the table.\<close>

fun astype_float :: "'f raw_row list \<Rightarrow> (timestamp \<times> 'f \<times> 'f) list option" where
  "astype_float [] = Some []"
| "astype_float (r # rs) =
     (case (to_float (WVHT r), to_float (DPD r)) of
        (Some h, Some p) \<Rightarrow>
          (case astype_float rs of
             Some out \<Rightarrow> Some ((time r, h, p) # out)
           | None \<Rightarrow> None)
      | _ \<Rightarrow> None)"

text \<open>The try-block of lines 163-173. The result is the table indexed by time with
  the columns renamed: triples (index, \<^verbatim>\<open>hm0\<close>, \<^verbatim>\<open>tp\<close>). \<^verbatim>\<open>sort_index\<close> is a sort on
  the index that keeps rows of equal index in their order.\<close>

definition normalize_table :: "'f raw_frame \<Rightarrow> error + (timestamp \<times> 'f \<times> 'f) list" where
  "normalize_table data =
     (if ''WVHT'' \<notin> set (columns data) then Inl KeyError
      else
        let kept = filter (\<lambda>r. WVHT r \<noteq> NonNumeric ''m'') (raw_rows data)
        in if ''DPD'' \<notin> set (columns data) then Inl KeyError
           else (case astype_float kept of
                   None \<Rightarrow> Inl ValueError
                 | Some vals \<Rightarrow> Inr (sort_key fst vals)))"

section \<open>Accumulation under a memory budget (data_insert.py, lines 124-187)\<close>

text \<open>
  The library calls of the loop are parameters: \<^verbatim>\<open>ndbc.request_data\<close> (the year tables
  of a station, in the order of the returned dict), \<^verbatim>\<open>ndbc.to_datetime_index\<close>,
  \<^verbatim>\<open>pd.concat\<close> and \<^verbatim>\<open>DataFrame.memory_usage(deep=True).sum()\<close> (bytes). A
  \<^verbatim>\<open>KeyboardInterrupt\<close> is an outcome of the two calls that the source guards with its
  own \<^verbatim>\<open>except KeyboardInterrupt\<close>.
\<close>

record ('t, 'f) library =
  request_data :: "string list \<Rightarrow> 't list outcome"
  to_datetime_index :: "'t \<Rightarrow> 't"
  pd_concat :: "'t list \<Rightarrow> 'f raw_frame outcome"
  memory_usage :: "'f row list \<Rightarrow> nat"

record 'f entry =
  data :: "'f row list"
  data_size :: rat

text \<open>The module-level variables the loop updates, and what it prints (lines 137-138:
  the station's ids and the running total, once per station that is fetched).\<close>

record 'f acc =
  mem_used :: rat
  data_sets :: "(nat \<times> 'f entry) list"
  stdout :: "(string list \<times> rat) list"

definition mem_desired :: rat where
  "mem_desired = 500"

datatype 'a loop = Break 'a | Continue 'a

text \<open>The three try-blocks of an iteration and the construction of the entry
  (lines 141-186). An exception in any of them skips the station
  (\<^verbatim>\<open>except: continue\<close>); the normalization block raises where \<open>normalize_table\<close> does.\<close>

definition station_data :: "('t, 'f) library \<Rightarrow> nat \<Rightarrow> available list \<Rightarrow> 'f entry outcome" where
  "station_data lib index df =
     (case request_data lib (map filename df) of
        Interrupted \<Rightarrow> Interrupted
      | Raised \<Rightarrow> Raised
      | Returned data_dict \<Rightarrow>
          (case pd_concat lib (map (to_datetime_index lib) data_dict) of
             Interrupted \<Rightarrow> Interrupted
           | Raised \<Rightarrow> Raised
           | Returned raw \<Rightarrow>
               (case normalize_table raw of
                  Inl e \<Rightarrow> Raised
                | Inr obs \<Rightarrow>
                    let rows = map (\<lambda>(t, h, p).
                                 \<lparr>hm0 = h, tp = p, date = t, data_set_id = index + 1\<rparr>) obs
                    in Returned \<lparr>data = rows,
                                 data_size = of_nat (memory_usage lib rows) / 1000000\<rparr>)))"

text \<open>One iteration of \<^verbatim>\<open>for index, df in enumerate(found)\<close>: the budget check, the
  two prints, the station's data, and the update of \<open>data_sets\<close> and \<open>mem_used\<close>.
  \<open>data_sets\<close> is a dict in insertion order: \<open>AList.update\<close> appends a new key and
  overwrites an old one in place.\<close>

definition body :: "('t, 'f) library \<Rightarrow> nat \<Rightarrow> available list \<Rightarrow> 'f acc \<Rightarrow> 'f acc loop" where
  "body lib index df st =
     (if mem_desired \<le> mem_used st then Break st
      else
        let st1 = st\<lparr>stdout := stdout st @ [(unique (map buoy_id df), mem_used st)]\<rparr>
        in case station_data lib index df of
             Interrupted \<Rightarrow> Break st1
           | Raised \<Rightarrow> Continue st1
           | Returned e \<Rightarrow>
               Continue (st1\<lparr>data_sets := AList.update (index + 1) e (data_sets st1),
                             mem_used := mem_used st1 + data_size e\<rparr>))"

fun gather :: "('t, 'f) library \<Rightarrow> (nat \<times> available list) list \<Rightarrow> 'f acc \<Rightarrow> 'f acc" where
  "gather lib [] st = st"
| "gather lib (x # rest) st =
     (case body lib (fst x) (snd x) st of
        Break st' \<Rightarrow> st'
      | Continue st' \<Rightarrow> gather lib rest st')"

definition acc_init :: "'f acc" where
  "acc_init = \<lparr>mem_used = 0, data_sets = [], stdout = []\<rparr>"

definition accumulate :: "('t, 'f) library \<Rightarrow> available list list \<Rightarrow> 'f acc" where
  "accumulate lib fnd = gather lib (enumerate 0 fnd) acc_init"
section \<open>Text of the blob payload (pandas \<^verbatim>\<open>to_csv\<close> and \<^verbatim>\<open>read_csv\<close>)\<close>

text \<open>
  What the Python runtime and pandas fix, and the scripts only use:
  \<^item> \<open>wvht_first\<close>: the iteration order of the set \<^verbatim>\<open>REQUIRED_COLUMNS\<close>, which is the order
    of the columns \<^verbatim>\<open>hm0\<close> and \<^verbatim>\<open>tp\<close> of every DataFrame (line 167);
  \<^item> how \<^verbatim>\<open>to_csv\<close> writes a float and a timestamp, and how \<^verbatim>\<open>read_csv\<close> and
    \<^verbatim>\<open>pd.to_datetime(utc=True)\<close> read them (\<open>None\<close>: the text is not a number, not a time);
  \<^item> \<^verbatim>\<open>Series.sum()\<close> on a column of floats.
\<close>

record 'f runtime =
  wvht_first :: bool
  repr_float :: "'f \<Rightarrow> string"
  parse_float :: "string \<Rightarrow> 'f option"
  repr_time :: "timestamp \<Rightarrow> string"
  parse_time :: "string \<Rightarrow> timestamp option"
  series_sum :: "'f list \<Rightarrow> 'f"

text \<open>\<^verbatim>\<open>sep.join(fields)\<close> and \<^verbatim>\<open>text.split(c)\<close>.\<close>

fun join :: "string \<Rightarrow> string list \<Rightarrow> string" where
  "join sep [] = []"
| "join sep [x] = x"
| "join sep (x # y # ys) = x @ sep @ join sep (y # ys)"

fun split_on :: "char \<Rightarrow> string \<Rightarrow> string list" where
  "split_on c [] = [[]]"
| "split_on c (x # xs) =
     (if x = c then [] # split_on c xs
      else (case split_on c xs of
              [] \<Rightarrow> [[x]]
            | w # ws \<Rightarrow> (x # w) # ws))"

text \<open>\<^verbatim>\<open>str(n)\<close> for a row position.\<close>

fun string_of_nat :: "nat \<Rightarrow> string" where
  "string_of_nat n =
     (if n < 10 then [''0123456789'' ! n]
      else string_of_nat (n div 10) @ [''0123456789'' ! (n mod 10)])"

declare string_of_nat.simps [simp del]

text \<open>An Observation as the payload holds it: \<^verbatim>\<open>data.drop(columns=["data_set_id"])\<close>
  (line 217) leaves \<^verbatim>\<open>hm0\<close>, \<^verbatim>\<open>tp\<close> and \<^verbatim>\<open>date\<close>.\<close>

type_synonym 'f observation = "'f \<times> 'f \<times> timestamp"

definition drop_data_set_id :: "'f row \<Rightarrow> 'f observation" where
  "drop_data_set_id r = (hm0 r, tp r, date r)"

definition csv_header :: "'f runtime \<Rightarrow> string list" where
  "csv_header rt =
     [] # (if wvht_first rt then [''hm0'', ''tp''] else [''tp'', ''hm0'']) @ [''date'']"

definition csv_fields :: "'f runtime \<Rightarrow> 'f observation \<Rightarrow> string list" where
  "csv_fields rt ob =
     (case ob of (h, p, d) \<Rightarrow>
        (if wvht_first rt then [repr_float rt h, repr_float rt p]
         else [repr_float rt p, repr_float rt h]) @ [repr_time rt d])"

text \<open>\<^verbatim>\<open>data.to_csv(buf)\<close> with the defaults of pandas: a header line, the index (the row
  position) as first field of every line under an empty name, comma as separator, a line
  feed that ends every line. No field of the payload needs quoting as long as the text of
  a float or a timestamp has no comma, quote or line break.\<close>

definition to_csv :: "'f runtime \<Rightarrow> 'f observation list \<Rightarrow> string" where
  "to_csv rt obs =
     concat (map (\<lambda>fields. join '','' fields @ [CHR 0x0A])
       (csv_header rt #
        map (\<lambda>x. string_of_nat (fst x) # csv_fields rt (snd x)) (enumerate 0 obs)))"

text \<open>The table \<^verbatim>\<open>pd.read_csv\<close> returns, before any column is given a type: the column
  names and the fields of every line.\<close>

record csv_table =
  names :: "string list"
  cells :: "string list list"

definition mangle_names :: "string list \<Rightarrow> string list" where
  "mangle_names hs =
     map (\<lambda>x. if snd x = [] then ''Unnamed: '' @ string_of_nat (fst x) else snd x)
       (enumerate 0 hs)"

text \<open>\<^verbatim>\<open>pd.read_csv\<close> with its defaults, on text without quotes: blank lines are skipped,
  the first line names the columns (an empty name becomes \<^verbatim>\<open>Unnamed: i\<close>), a shorter line
  is filled with missing values (empty fields), a longer line is a \<^verbatim>\<open>ParserError\<close>,
  no line at all is an \<^verbatim>\<open>EmptyDataError\<close>.\<close>

definition read_csv :: "string \<Rightarrow> error + csv_table" where
  "read_csv text =
     (case filter (\<lambda>l. l \<noteq> []) (split_on (CHR 0x0A) text) of
        [] \<Rightarrow> Inl EmptyDataError
      | h # ls \<Rightarrow>
          let ns = mangle_names (split_on CHR '','' h);
              recs = map (split_on CHR '','') ls
          in if list_ex (\<lambda>r. length ns < length r) recs then Inl ParserError
             else Inr \<lparr>names = ns,
                       cells = map (\<lambda>r. r @ replicate (length ns - length r) []) recs\<rparr>)"

fun index_of :: "'a \<Rightarrow> 'a list \<Rightarrow> nat option" where
  "index_of c [] = None"
| "index_of c (x # xs) =
     (if x = c then Some 0 else map_option Suc (index_of c xs))"

text \<open>\<^verbatim>\<open>d[c]\<close>: the fields of the column named \<open>c\<close>, or \<^verbatim>\<open>KeyError\<close>.\<close>

definition column :: "csv_table \<Rightarrow> string \<Rightarrow> error + string list" where
  "column t c =
     (case index_of c (names t) of
        None \<Rightarrow> Inl KeyError
      | Some i \<Rightarrow> Inr (map (\<lambda>r. r ! i) (cells t)))"

text \<open>\<^verbatim>\<open>pd.to_datetime(d[c], utc=True)\<close> raises a \<^verbatim>\<open>ValueError\<close> on a field that is not a
  time.\<close>

definition to_datetime :: "'f runtime \<Rightarrow> csv_table \<Rightarrow> string \<Rightarrow> error + timestamp list" where
  "to_datetime rt t c =
     (case column t c of
        Inl e \<Rightarrow> Inl e
      | Inr col \<Rightarrow>
          (case those (map (parse_time rt) col) of
             None \<Rightarrow> Inl ValueError
           | Some ds \<Rightarrow> Inr ds))"

text \<open>A column of \<^verbatim>\<open>read_csv\<close> is a column of floats when every field is a number.
  Otherwise pandas keeps the strings and \<^verbatim>\<open>sum()\<close> concatenates them or raises a
  \<^verbatim>\<open>TypeError\<close>; the model stops at \<open>TypeError\<close> in both cases, since the aggregate is not
  a number.\<close>

definition float_column :: "'f runtime \<Rightarrow> csv_table \<Rightarrow> string \<Rightarrow> error + 'f list" where
  "float_column rt t c =
     (case column t c of
        Inl e \<Rightarrow> Inl e
      | Inr col \<Rightarrow>
          (case those (map (parse_float rt) col) of
             None \<Rightarrow> Inl TypeError
           | Some xs \<Rightarrow> Inr xs))"

section \<open>The database and the writer (data_insert.py, lines 190-234)\<close>

text \<open>The three tables, each a list of rows in insertion order. A \<^verbatim>\<open>SELECT\<close> without
  \<^verbatim>\<open>ORDER BY\<close> returns the rows it selects in that order.\<close>

record 'f database =
  row_data :: "'f row list"
  binary_data :: "(nat \<times> string) list"
  data_size_mb :: "(nat \<times> rat) list"




section \<open>The benchmark harness (data_retrieval.py)\<close>

subsection \<open>Request windows (lines 132-149)\<close>

text \<open>The generator of \<^verbatim>\<open>random\<close> is a list of draws still to come; \<open>randbelow g n\<close>
  takes the next one, reduced below \<open>n\<close>.\<close>

type_synonym rng = "nat list"

fun randbelow :: "rng \<Rightarrow> nat \<Rightarrow> nat \<times> rng" where
  "randbelow [] n = (0, [])"
| "randbelow (r # g) n = (r mod n, g)"

text \<open>\<^verbatim>\<open>random.sample(population, k)\<close>: \<open>k\<close> times, a position of the pool is drawn, its
  element is taken and the last element of the pool is moved to that position. (For
  populations of more than 21 elements CPython draws positions again until they are new
  instead; the lists it can return are the same.) A sample larger than the population is a
  \<^verbatim>\<open>ValueError\<close>.\<close>

fun sample_pool :: "rng \<Rightarrow> 'a list \<Rightarrow> nat \<Rightarrow> 'a list \<times> rng" where
  "sample_pool g pool 0 = ([], g)"
| "sample_pool g pool (Suc k) =
     (let jg = randbelow g (length pool);
          rest = sample_pool (snd jg) (butlast (pool[fst jg := last pool])) k
      in (pool ! fst jg # fst rest, snd rest))"

definition random_sample :: "rng \<Rightarrow> 'a list \<Rightarrow> nat \<Rightarrow> error + 'a list \<times> rng" where
  "random_sample g population k =
     (if length population < k then Inl ValueError
      else Inr (sample_pool g population k))"

fun date_min :: "timestamp list \<Rightarrow> timestamp option" where
  "date_min [] = None"
| "date_min (d # ds) = Some (fold min ds d)"

fun date_max :: "timestamp list \<Rightarrow> timestamp option" where
  "date_max [] = None"
| "date_max (d # ds) = Some (fold max ds d)"

text \<open>\<^verbatim>\<open>req_query\<close>: one row per \<^verbatim>\<open>data_set_id\<close> of \<^verbatim>\<open>row_data\<close> with the least and the
  greatest date of its rows; the groups come in order of first appearance.\<close>

definition req_info :: "'f database \<Rightarrow> (nat \<times> timestamp option \<times> timestamp option) list" where
  "req_info db =
     map (\<lambda>i. let ds = map date (filter (\<lambda>r. data_set_id r = i) (row_data db))
              in (i, date_min ds, date_max ds))
       (unique (map data_set_id (row_data db)))"

record request =
  req_id :: nat
  start_year :: int
  end_year :: int

text \<open>The loop of lines 144-149. \<^verbatim>\<open>range(start, end)\<close> is the list of integers from
  \<open>start\<close> to \<open>end - 1\<close>. A group has rows, so that its least and greatest date exist.\<close>

fun build_requests ::
  "rng \<Rightarrow> (nat \<times> timestamp option \<times> timestamp option) list \<Rightarrow> error + request list" where
  "build_requests g [] = Inr []"
| "build_requests g (d # rest) =
     (case (fst (snd d), snd (snd d)) of
        (Some lo, Some hi) \<Rightarrow>
          (case random_sample g [year_of lo..year_of hi - 1] 2 of
             Inl e \<Rightarrow> Inl e
           | Inr yg \<Rightarrow>
               (case build_requests (snd yg) rest of
                  Inl e \<Rightarrow> Inl e
                | Inr reqs \<Rightarrow>
                    Inr (\<lparr>req_id = fst d, start_year = Min (set (fst yg)),
                          end_year = Max (set (fst yg))\<rparr> # reqs)))
      | _ \<Rightarrow> Inl TypeError)"

subsection \<open>Measurements\<close>

text \<open>A line of a report: \<^verbatim>\<open>set_id\<close> (the array \<^verbatim>\<open>d_rows["data_set_id"].unique()\<close> for
  the row representation, the scalar \<^verbatim>\<open>res[0]["data_set_id"]\<close> for the blob),
  \<^verbatim>\<open>min_date\<close>, \<^verbatim>\<open>max_date\<close> (\<open>None\<close> is \<^verbatim>\<open>NaT\<close>) and \<^verbatim>\<open>tp_sum\<close>. The elapsed
  wall-clock time is not part of the model.\<close>

datatype set_id_cell = Array "nat list" | Scalar nat

record 'f measurement =
  set_id :: set_id_cell
  min_date :: "timestamp option"
  max_date :: "timestamp option"
  tp_sum :: 'f

definition measure_rows :: "'f runtime \<Rightarrow> 'f row list \<Rightarrow> 'f measurement" where
  "measure_rows rt d_rows =
     \<lparr>set_id = Array (unique (map data_set_id d_rows)),
      min_date = date_min (map date d_rows),
      max_date = date_max (map date d_rows),
      tp_sum = series_sum rt (map tp d_rows)\<rparr>"

text \<open>\<^verbatim>\<open>binary_q\<close>, \<^verbatim>\<open>res[0]\<close>, \<^verbatim>\<open>read_csv\<close> and the conversion of the date column (lines
  171-177 and 238-242): the identifier of the first row of the result, the dates and the
  table. An empty result makes \<^verbatim>\<open>res[0]\<close> an \<^verbatim>\<open>IndexError\<close>.\<close>

definition read_blob ::
  "'f runtime \<Rightarrow> 'f database \<Rightarrow> nat \<Rightarrow> error + nat \<times> timestamp list \<times> csv_table" where
  "read_blob rt db i =
     (case filter (\<lambda>b. fst b = i) (binary_data db) of
        [] \<Rightarrow> Inl IndexError
      | res0 # res \<Rightarrow>
          (case read_csv (snd res0) of
             Inl e \<Rightarrow> Inl e
           | Inr d_binary \<Rightarrow>
               (case to_datetime rt d_binary ''date'' of
                  Inl e \<Rightarrow> Inl e
                | Inr dates \<Rightarrow> Inr (fst res0, dates, d_binary))))"

text \<open>The aggregates of the blob over the lines that the mask \<open>keep\<close> selects
  (\<^verbatim>\<open>d_binary[mask]\<close>; the full scan keeps every line).\<close>

definition measure_binary ::
  "'f runtime \<Rightarrow> (timestamp \<Rightarrow> bool) \<Rightarrow> nat \<times> timestamp list \<times> csv_table \<Rightarrow> error + 'f measurement" where
  "measure_binary rt keep blob =
     (case blob of (d_id, dates, d_binary) \<Rightarrow>
        (case float_column rt d_binary ''tp'' of
           Inl e \<Rightarrow> Inl e
         | Inr tps \<Rightarrow>
             let kept = filter (\<lambda>x. keep (fst x)) (zip dates tps)
             in Inr \<lparr>set_id = Scalar d_id,
                     min_date = date_min (map fst kept),
                     max_date = date_max (map fst kept),
                     tp_sum = series_sum rt (map snd kept)\<rparr>))"

subsection \<open>Full scan (lines 151-192)\<close>

definition availabe_ids :: "nat list" where
  "availabe_ids = [1..<58]"

definition full_scan_step ::
  "'f runtime \<Rightarrow> 'f database \<Rightarrow> nat \<Rightarrow> error + 'f measurement \<times> 'f measurement" where
  "full_scan_step rt db i =
     (let d_rows = filter (\<lambda>r. data_set_id r = i) (row_data db);
          log_rows = measure_rows rt d_rows
      in case read_blob rt db i of
           Inl e \<Rightarrow> Inl e
         | Inr blob \<Rightarrow>
             (case measure_binary rt (\<lambda>d. True) blob of
                Inl e \<Rightarrow> Inl e
              | Inr log_binary \<Rightarrow> Inr (log_rows, log_binary)))"

subsection \<open>Range-filtered scan (lines 194-265)\<close>

definition in_years :: "request \<Rightarrow> timestamp \<Rightarrow> bool" where
  "in_years param d \<longleftrightarrow> start_year param \<le> year_of d \<and> year_of d \<le> end_year param"

definition filtered_scan_step ::
  "'f runtime \<Rightarrow> 'f database \<Rightarrow> request \<Rightarrow> error + 'f measurement \<times> 'f measurement" where
  "filtered_scan_step rt db param =
     (let d_rows = filter (\<lambda>r. data_set_id r = req_id param \<and> in_years param (date r))
                     (row_data db);
          log_rows = measure_rows rt d_rows
      in case read_blob rt db (req_id param) of
           Inl e \<Rightarrow> Inl e
         | Inr blob \<Rightarrow>
             (case measure_binary rt (in_years param) blob of
                Inl e \<Rightarrow> Inl e
              | Inr log_binary \<Rightarrow> Inr (log_rows, log_binary)))"

subsection \<open>The run\<close>

text \<open>A \<^verbatim>\<open>with pool.connect()\<close> loop: the two logs grow by one line per iteration, an
  exception ends the run.\<close>

fun scan :: "('a \<Rightarrow> error + 'b \<times> 'b) \<Rightarrow> 'a list \<Rightarrow> error + 'b list \<times> 'b list" where
  "scan step [] = Inr ([], [])"
| "scan step (x # xs) =
     (case step x of
        Inl e \<Rightarrow> Inl e
      | Inr m \<Rightarrow>
          (case scan step xs of
             Inl e \<Rightarrow> Inl e
           | Inr logs \<Rightarrow> Inr (fst m # fst logs, snd m # snd logs)))"

text \<open>What a run leaves: the exception that ended it, if any, and the report files it
  wrote, by name.\<close>

record 'f run =
  raised :: "error option"
  files :: "(string \<times> 'f measurement list) list"

definition benchmark :: "'f runtime \<Rightarrow> rng \<Rightarrow> 'f database \<Rightarrow> 'f run" where
  "benchmark rt g db =
     (case build_requests g (req_info db) of
        Inl e \<Rightarrow> \<lparr>raised = Some e, files = []\<rparr>
      | Inr requests \<Rightarrow>
          (case scan (full_scan_step rt db) availabe_ids of
             Inl e \<Rightarrow> \<lparr>raised = Some e, files = []\<rparr>
           | Inr full \<Rightarrow>
               let written = [(''all_years_rows.csv'', fst full),
                              (''all_years_binary.csv'', snd full)]
               in (case scan (filtered_scan_step rt db) requests of
                     Inl e \<Rightarrow> \<lparr>raised = Some e, files = written\<rparr>
                   | Inr filtered \<Rightarrow>
                       \<lparr>raised = None,
                        files = written @ [(''filtered_years_rows.csv'', fst filtered),
                                           (''filtered_years_binary.csv'', snd filtered)]\<rparr>)))"

section \<open>Texts that survive the payload\<close>

text \<open>A text is plain when it has no comma, line feed, carriage return or double quote:
  \<^verbatim>\<open>to_csv\<close> writes it as it is and \<^verbatim>\<open>read_csv\<close> reads it back as one field.\<close>

definition plain :: "string \<Rightarrow> bool" where
  "plain s \<longleftrightarrow> CHR '','' \<notin> set s \<and> CHR 0x0A \<notin> set s \<and> CHR 0x0D \<notin> set s \<and> CHR 0x22 \<notin> set s"

text \<open>The proviso of a round trip through the payload (its formatting precision):
  for every Observation of the list, the texts \<^verbatim>\<open>to_csv\<close> writes for its two floats and
  its timestamp are plain and are read back as the values they were written from.\<close>

definition formats_round_trip :: "'f runtime \<Rightarrow> 'f observation list \<Rightarrow> bool" where
  "formats_round_trip rt obs \<longleftrightarrow>
     (\<forall>ob \<in> set obs.
        plain (repr_float rt (fst ob)) \<and> parse_float rt (repr_float rt (fst ob)) = Some (fst ob)
      \<and> plain (repr_float rt (fst (snd ob)))
      \<and> parse_float rt (repr_float rt (fst (snd ob))) = Some (fst (snd ob))
      \<and> plain (repr_time rt (snd (snd ob)))
      \<and> parse_time rt (repr_time rt (snd (snd ob))) = Some (snd (snd ob)))"

section \<open>Concrete inputs for the accumulator\<close>

text \<open>Three stations (12, 3 and 12 years of data), a table with a unit row, a table
  with a corrupted cell, and providers that fail or return a corrupted table for one
  station.\<close>

definition station_a :: "available list" where
  "station_a = map (\<lambda>y. \<lparr>buoy_id = ''46050'', year = y, filename = ''46050h.txt.gz''\<rparr>) [1991..2002]"

definition station_b :: "available list" where
  "station_b = map (\<lambda>y. \<lparr>buoy_id = ''44099'', year = y, filename = ''44099h.txt.gz''\<rparr>) [2008..2010]"

definition station_c :: "available list" where
  "station_c = map (\<lambda>y. \<lparr>buoy_id = ''51201'', year = y, filename = ''51201h.txt.gz''\<rparr>) [2004..2015]"

definition clean_frame :: "rat raw_frame" where
  "clean_frame = \<lparr>columns = [''WDIR'', ''WVHT'', ''DPD''],
     raw_rows = [\<lparr>time = (2006, 40), WVHT = Numeric 2, DPD = Numeric 8\<rparr>,
                 \<lparr>time = (2005, 0), WVHT = NonNumeric ''m'', DPD = NonNumeric ''sec''\<rparr>,
                 \<lparr>time = (2005, 10), WVHT = Numeric 1, DPD = Numeric 7\<rparr>]\<rparr>"

definition corrupt_frame :: "rat raw_frame" where
  "corrupt_frame = \<lparr>columns = [''WDIR'', ''WVHT'', ''DPD''],
     raw_rows = [\<lparr>time = (2006, 40), WVHT = Numeric 2, DPD = Numeric 8\<rparr>,
                 \<lparr>time = (2005, 10), WVHT = NonNumeric ''MM'', DPD = Numeric 7\<rparr>]\<rparr>"

definition first_concat :: "'f raw_frame list \<Rightarrow> 'f raw_frame outcome" where
  "first_concat dfs = (case dfs of [] \<Rightarrow> Raised
     | d # ds \<Rightarrow> Returned \<lparr>columns = columns d, raw_rows = concat (map raw_rows dfs)\<rparr>)"

definition lib_of :: "(string list \<Rightarrow> rat raw_frame list outcome) \<Rightarrow> nat \<Rightarrow> (rat raw_frame, rat) library" where
  "lib_of req bytes = \<lparr>request_data = req, to_datetime_index = (\<lambda>t. t),
      pd_concat = first_concat, memory_usage = (\<lambda>rows. bytes)\<rparr>"

definition req_a_fails :: "string list \<Rightarrow> rat raw_frame list outcome" where
  "req_a_fails fs = (if fs = map filename station_a then Raised else Returned [clean_frame])"

definition req_c_corrupt :: "string list \<Rightarrow> rat raw_frame list outcome" where
  "req_c_corrupt fs = (if fs = map filename station_c then Returned [corrupt_frame] else Returned [clean_frame])"
section \<open>Concrete inputs for the writer and the harness\<close>

text \<open>A runtime over the rationals that writes and reads the floats and the timestamps
  of the examples as Python does (for every other value its text is not a number,
  not a time), with the exact sum as \<^verbatim>\<open>Series.sum()\<close>.\<close>

definition repr_float_demo :: "rat \<Rightarrow> string" where
  "repr_float_demo x =
     (if x = 1 then ''1.0'' else if x = 2 then ''2.0''
      else if x = 7 then ''7.0'' else if x = 8 then ''8.0'' else ''?'')"

definition parse_float_demo :: "string \<Rightarrow> rat option" where
  "parse_float_demo s =
     (if s = ''1.0'' then Some 1 else if s = ''2.0'' then Some 2
      else if s = ''7.0'' then Some 7 else if s = ''8.0'' then Some 8 else None)"

definition repr_time_demo :: "timestamp \<Rightarrow> string" where
  "repr_time_demo d =
     (if d = (2005, 10) then ''2005-01-01 00:10:00+00:00''
      else if d = (2006, 40) then ''2006-01-01 00:40:00+00:00''
      else if d = (2008, 5) then ''2008-01-01 00:05:00+00:00'' else ''?'')"

definition parse_time_demo :: "string \<Rightarrow> timestamp option" where
  "parse_time_demo s =
     (if s = ''2005-01-01 00:10:00+00:00'' then Some (2005, 10)
      else if s = ''2006-01-01 00:40:00+00:00'' then Some (2006, 40)
      else if s = ''2008-01-01 00:05:00+00:00'' then Some (2008, 5) else None)"

definition demo_rt :: "rat runtime" where
  "demo_rt = \<lparr>wvht_first = True, repr_float = repr_float_demo,
     parse_float = parse_float_demo, repr_time = repr_time_demo,
     parse_time = parse_time_demo, series_sum = sum_list\<rparr>"

text \<open>The Dataset that the table with a unit row yields for the second of two stations.\<close>

definition entry_c :: "rat entry" where
  "entry_c = \<lparr>data = [\<lparr>hm0 = 1, tp = 7, date = (2005, 10), data_set_id = 2\<rparr>,
                       \<lparr>hm0 = 2, tp = 8, date = (2006, 40), data_set_id = 2\<rparr>],
              data_size = 300\<rparr>"

text \<open>A database with a blob for each of the identifiers 1, ..., 57, in which the rows of
  Dataset 1 span 2005 to 2008 and its blob holds another \<^verbatim>\<open>tp\<close> in its first line; the
  other Datasets have no Observation.\<close>

definition rows_1 :: "rat row list" where
  "rows_1 = [\<lparr>hm0 = 1, tp = 7, date = (2005, 10), data_set_id = 1\<rparr>,
             \<lparr>hm0 = 2, tp = 8, date = (2006, 40), data_set_id = 1\<rparr>,
             \<lparr>hm0 = 1, tp = 8, date = (2008, 5), data_set_id = 1\<rparr>]"

definition blob_1 :: "rat observation list" where
  "blob_1 = [(1, 8, (2005, 10)), (2, 8, (2006, 40)), (1, 8, (2008, 5))]"

definition mismatch_db :: "rat database" where
  "mismatch_db = \<lparr>row_data = rows_1,
     binary_data = (1, to_csv demo_rt blob_1) # map (\<lambda>k. (k, to_csv demo_rt [])) [2..<58],
     data_size_mb = []\<rparr>"

text \<open>The same rows with a blob for Dataset 1 only, and a database whose only Dataset
  spans 2005 to 2006.\<close>

definition one_blob_db :: "rat database" where
  "one_blob_db = \<lparr>row_data = rows_1, binary_data = [(1, to_csv demo_rt blob_1)],
     data_size_mb = []\<rparr>"

definition short_db :: "rat database" where
  "short_db = \<lparr>row_data = data entry_c,
     binary_data = [(2, to_csv demo_rt (map drop_data_set_id (data entry_c)))],
     data_size_mb = [(2, 300)]\<rparr>"



section \<open>Properties of eligibility and accumulation\<close>

subsection \<open>Auxiliary facts\<close>

lemma update_fresh: "k \<notin> fst ` set al \<Longrightarrow> AList.update k v al = al @ [(k, v)]"
  by (induction al) auto

lemma set_unique [simp]: "set (unique xs) = set xs"
  by (simp add: unique_def)

lemma distinct_unique [simp]: "distinct (unique xs)"
  by (simp add: unique_def)

lemma length_unique: "length (unique xs) = card (set xs)"
  by (simp add: unique_def length_remdups_card_conv)

lemma select_buoys_mem:
  "d \<in> set (select_buoys ab bs) \<Longrightarrow>
     \<exists>b \<in> set bs. b \<noteq> ''41001'' \<and> d = filter (\<lambda>r. buoy_id r = b) ab
       \<and> year_span \<le> card (year ` set d)"
  by (induction bs) (auto simp: Let_def length_unique split: if_splits)

lemma found_mem:
  assumes "d \<in> set (found ab)"
  shows "\<exists>b \<in> buoy_id ` set ab. b \<noteq> ''41001'' \<and> d = filter (\<lambda>r. buoy_id r = b) ab
       \<and> year_span \<le> card (year ` set d)"
  using select_buoys_mem[OF assms[unfolded found_def]] by auto

lemma gather_data_sets:
  assumes "\<forall>k \<in> fst ` set (data_sets st). k \<le> n"
  shows "\<exists>new. data_sets (gather lib (enumerate n xs) st) = data_sets st @ new
           \<and> sorted_wrt (<) (map fst new)
           \<and> (\<forall>p \<in> set new. n < fst p \<and> fst p \<le> n + length xs
                 \<and> station_data lib (fst p - 1) (xs ! (fst p - 1 - n)) = Returned (snd p))"
  using assms
proof (induction xs arbitrary: n st)
  case Nil
  then show ?case by simp
next
  case (Cons x xs)
  show ?case
  proof (cases "body lib n x st")
    case (Break st')
    then have "data_sets st' = data_sets st"
      by (auto simp: body_def Let_def split: if_splits outcome.splits)
    with Break show ?thesis by simp
  next
    case (Continue st')
    have fresh: "n + 1 \<notin> fst ` set (data_sets st)"
      using Cons.prems by force
    from Continue have "data_sets st' = data_sets st
        \<or> (\<exists>e. station_data lib n x = Returned e \<and> data_sets st' = data_sets st @ [(n + 1, e)])"
      using update_fresh[OF fresh]
      by (auto simp: body_def Let_def split: if_splits outcome.splits)
    then consider (skip) "data_sets st' = data_sets st"
      | (add) e where "station_data lib n x = Returned e"
          "data_sets st' = data_sets st @ [(n + 1, e)]"
      by blast
    then show ?thesis
    proof cases
      case skip
      with Cons.prems have "\<forall>k \<in> fst ` set (data_sets st'). k \<le> Suc n" by auto
      from Cons.IH[OF this] obtain new where
        new: "data_sets (gather lib (enumerate (Suc n) xs) st') = data_sets st' @ new"
          "sorted_wrt (<) (map fst new)"
          "\<forall>p \<in> set new. Suc n < fst p \<and> fst p \<le> Suc n + length xs
                 \<and> station_data lib (fst p - 1) (xs ! (fst p - 1 - Suc n)) = Returned (snd p)"
        by blast
      have "\<forall>p \<in> set new. n < fst p \<and> fst p \<le> n + length (x # xs)
                 \<and> station_data lib (fst p - 1) ((x # xs) ! (fst p - 1 - n)) = Returned (snd p)"
      proof
        fix p assume p: "p \<in> set new"
        with new(3) have a: "Suc n < fst p" "fst p \<le> Suc n + length xs"
          "station_data lib (fst p - 1) (xs ! (fst p - 1 - Suc n)) = Returned (snd p)" by auto
        from a(1) have "fst p - 1 - n = Suc (fst p - 1 - Suc n)" by arith
        with a show "n < fst p \<and> fst p \<le> n + length (x # xs)
                 \<and> station_data lib (fst p - 1) ((x # xs) ! (fst p - 1 - n)) = Returned (snd p)"
          by simp
      qed
      with new(1,2) skip Continue show ?thesis by simp
    next
      case add
      with Cons.prems have "\<forall>k \<in> fst ` set (data_sets st'). k \<le> Suc n" by auto
      from Cons.IH[OF this] obtain new where
        new: "data_sets (gather lib (enumerate (Suc n) xs) st') = data_sets st' @ new"
          "sorted_wrt (<) (map fst new)"
          "\<forall>p \<in> set new. Suc n < fst p \<and> fst p \<le> Suc n + length xs
                 \<and> station_data lib (fst p - 1) (xs ! (fst p - 1 - Suc n)) = Returned (snd p)"
        by blast
      have tl: "\<forall>p \<in> set new. n < fst p \<and> fst p \<le> n + length (x # xs)
                 \<and> station_data lib (fst p - 1) ((x # xs) ! (fst p - 1 - n)) = Returned (snd p)"
      proof
        fix p assume p: "p \<in> set new"
        with new(3) have a: "Suc n < fst p" "fst p \<le> Suc n + length xs"
          "station_data lib (fst p - 1) (xs ! (fst p - 1 - Suc n)) = Returned (snd p)" by auto
        from a(1) have "fst p - 1 - n = Suc (fst p - 1 - Suc n)" by arith
        with a show "n < fst p \<and> fst p \<le> n + length (x # xs)
                 \<and> station_data lib (fst p - 1) ((x # xs) ! (fst p - 1 - n)) = Returned (snd p)"
          by simp
      qed
      let ?new = "(n + 1, e) # new"
      have "data_sets (gather lib (enumerate n (x # xs)) st) = data_sets st @ ?new"
        using new(1) add(2) Continue by simp
      moreover have "sorted_wrt (<) (map fst ?new)"
        using new(2,3) by auto
      moreover have "\<forall>p \<in> set ?new. n < fst p \<and> fst p \<le> n + length (x # xs)
                 \<and> station_data lib (fst p - 1) ((x # xs) ! (fst p - 1 - n)) = Returned (snd p)"
        using tl add(1) by simp
      ultimately show ?thesis by blast
    qed
  qed
qed

lemma gather_budget:
  assumes "\<forall>k \<in> fst ` set (data_sets st). k \<le> n"
    and "mem_used st = (\<Sum>p\<leftarrow>data_sets st. data_size (snd p))"
    and "\<forall>j<length (data_sets st). (\<Sum>p\<leftarrow>take j (data_sets st). data_size (snd p)) < mem_desired"
  shows "mem_used (gather lib (enumerate n xs) st)
           = (\<Sum>p\<leftarrow>data_sets (gather lib (enumerate n xs) st). data_size (snd p))
       \<and> (\<forall>j<length (data_sets (gather lib (enumerate n xs) st)).
             (\<Sum>p\<leftarrow>take j (data_sets (gather lib (enumerate n xs) st)). data_size (snd p))
               < mem_desired)"
  using assms
proof (induction xs arbitrary: n st)
  case Nil
  then show ?case by simp
next
  case (Cons x xs)
  show ?case
  proof (cases "body lib n x st")
    case (Break st')
    then have "data_sets st' = data_sets st" "mem_used st' = mem_used st"
      by (auto simp: body_def Let_def split: if_splits outcome.splits)
    with Break Cons.prems show ?thesis by simp
  next
    case (Continue st')
    have fresh: "n + 1 \<notin> fst ` set (data_sets st)"
      using Cons.prems(1) by force
    from Continue have low: "mem_used st < mem_desired"
      by (auto simp: body_def Let_def split: if_splits)
    from Continue have "(data_sets st' = data_sets st \<and> mem_used st' = mem_used st)
        \<or> (\<exists>e. data_sets st' = data_sets st @ [(n + 1, e)]
                \<and> mem_used st' = mem_used st + data_size e)"
      using update_fresh[OF fresh]
      by (auto simp: body_def Let_def split: if_splits outcome.splits)
    then have inv: "mem_used st' = (\<Sum>p\<leftarrow>data_sets st'. data_size (snd p))
        \<and> (\<forall>j<length (data_sets st'). (\<Sum>p\<leftarrow>take j (data_sets st'). data_size (snd p)) < mem_desired)
        \<and> (\<forall>k \<in> fst ` set (data_sets st'). k \<le> Suc n)"
    proof
      assume "data_sets st' = data_sets st \<and> mem_used st' = mem_used st"
      with Cons.prems show ?thesis by auto
    next
      assume "\<exists>e. data_sets st' = data_sets st @ [(n + 1, e)]
                \<and> mem_used st' = mem_used st + data_size e"
      then obtain e where e: "data_sets st' = data_sets st @ [(n + 1, e)]"
        "mem_used st' = mem_used st + data_size e" by blast
      have "(\<Sum>p\<leftarrow>take j (data_sets st'). data_size (snd p)) < mem_desired"
        if "j < length (data_sets st')" for j
      proof (cases "j < length (data_sets st)")
        case True
        with Cons.prems(3) e(1) show ?thesis by simp
      next
        case False
        with that e(1) have "j = length (data_sets st)" by simp
        with e(1) low Cons.prems(2) show ?thesis by simp
      qed
      with e Cons.prems(1,2) show ?thesis by auto
    qed
    from Cons.IH[of st' "Suc n"] inv Continue show ?thesis by simp
  qed
qed

lemma gather_stdout:
  "\<exists>new. stdout (gather lib (enumerate n xs) st) = stdout st @ new
     \<and> (\<forall>p \<in> set new. \<exists>df \<in> set xs. fst p = unique (map buoy_id df))"
proof (induction xs arbitrary: n st)
  case Nil
  then show ?case by simp
next
  case (Cons x xs)
  show ?case
  proof (cases "body lib n x st")
    case (Break st')
    then have "stdout st' = stdout st \<or> stdout st' = stdout st @ [(unique (map buoy_id x), mem_used st)]"
      by (auto simp: body_def Let_def split: if_splits outcome.splits)
    then have "\<exists>new. stdout st' = stdout st @ new
       \<and> (\<forall>p \<in> set new. \<exists>df \<in> set (x # xs). fst p = unique (map buoy_id df))"
      by auto
    with Break show ?thesis by simp
  next
    case (Continue st')
    then have a: "stdout st' = stdout st @ [(unique (map buoy_id x), mem_used st)]"
      by (auto simp: body_def Let_def split: if_splits outcome.splits)
    from Cons.IH[of "Suc n" st'] obtain new where
      new: "stdout (gather lib (enumerate (Suc n) xs) st') = stdout st' @ new"
        "\<forall>p \<in> set new. \<exists>df \<in> set xs. fst p = unique (map buoy_id df)" by blast
    let ?new = "(unique (map buoy_id x), mem_used st) # new"
    have "stdout (gather lib (enumerate n (x # xs)) st) = stdout st @ ?new"
      using new(1) a Continue by simp
    moreover have "\<forall>p \<in> set ?new. \<exists>df \<in> set (x # xs). fst p = unique (map buoy_id df)"
      using new(2) by auto
    ultimately show ?thesis by blast
  qed
qed

lemma accumulate_data_sets:
  "sorted_wrt (<) (map fst (data_sets (accumulate lib fnd)))
   \<and> (\<forall>p \<in> set (data_sets (accumulate lib fnd)). 1 \<le> fst p \<and> fst p \<le> length fnd
        \<and> station_data lib (fst p - 1) (fnd ! (fst p - 1)) = Returned (snd p))"
  using gather_data_sets[where st=acc_init and n=0 and lib=lib and xs=fnd]
  by (auto simp: accumulate_def acc_init_def)

lemma accumulate_stdout:
  "p \<in> set (stdout (accumulate lib fnd)) \<Longrightarrow> \<exists>df \<in> set fnd. fst p = unique (map buoy_id df)"
  using gather_stdout[of lib 0 fnd acc_init]
  by (auto simp: accumulate_def acc_init_def)

lemma accumulate_budget:
  "mem_used (accumulate lib fnd) = (\<Sum>p\<leftarrow>data_sets (accumulate lib fnd). data_size (snd p))
   \<and> (\<forall>j<length (data_sets (accumulate lib fnd)).
        (\<Sum>p\<leftarrow>take j (data_sets (accumulate lib fnd)). data_size (snd p)) < mem_desired)"
  unfolding accumulate_def
  by (rule gather_budget) (simp_all add: acc_init_def)

lemmas acc_eval = accumulate_def acc_init_def body_def station_data_def normalize_table_def
  lib_of_def req_a_fails_def req_c_corrupt_def first_concat_def clean_frame_def corrupt_frame_def
  station_a_def station_b_def station_c_def mem_desired_def Let_def enumerate_eq_zip unique_def


lemma astype_float_None:
  "astype_float rs = None \<longleftrightarrow> (\<exists>r \<in> set rs. to_float (WVHT r) = None \<or> to_float (DPD r) = None)"
  by (induction rs) (auto split: option.splits)

lemma astype_float_Some:
  "astype_float rs = Some out \<Longrightarrow>
     map (\<lambda>(t, h, p). (t, Numeric h, Numeric p)) out = map (\<lambda>r. (time r, WVHT r, DPD r)) rs"
proof (induction rs arbitrary: out)
  case Nil
  then show ?case by simp
next
  case (Cons r rs)
  then show ?case
    by (cases "WVHT r"; cases "DPD r") (auto split: option.splits)
qed

lemma station_data_ids:
  "station_data lib index df = Returned e \<Longrightarrow> \<forall>r \<in> set (data e). data_set_id r = index + 1"
proof -
  assume a: "station_data lib index df = Returned e"
  then obtain obs where
    "data e = map (\<lambda>(t, h, p). \<lparr>hm0 = h, tp = p, date = t, data_set_id = index + 1\<rparr>) obs"
    unfolding station_data_def Let_def
    by (cases "request_data lib (map filename df)"; simp split: outcome.splits sum.splits) auto
  then show ?thesis by auto
qed

lemma normalize_table_Inr:
  assumes "normalize_table raw = Inr obs"
  shows "sorted (map fst obs)
    \<and> mset (map (\<lambda>(t, h, p). (t, Numeric h, Numeric p)) obs)
        = mset (map (\<lambda>r. (time r, WVHT r, DPD r))
             (filter (\<lambda>r. WVHT r \<noteq> NonNumeric ''m'') (raw_rows raw)))"
proof -
  let ?kept = "filter (\<lambda>r. WVHT r \<noteq> NonNumeric ''m'') (raw_rows raw)"
  from assms obtain vals where v: "astype_float ?kept = Some vals" "obs = sort_key fst vals"
    by (auto simp: normalize_table_def Let_def split: if_splits option.splits)
  have "mset (map (\<lambda>(t, h, p). (t, Numeric h, Numeric p)) obs)
      = mset (map (\<lambda>(t, h, p). (t, Numeric h, Numeric p)) vals)"
    using v(2) by simp
  also have "\<dots> = mset (map (\<lambda>r. (time r, WVHT r, DPD r)) ?kept)"
    using astype_float_Some[OF v(1)] by simp
  finally show ?thesis using v(2) by simp
qed

subsection \<open>Row-level and station-level dropping\<close>

text \<open>
  Claim C4, as amended. When a station's concatenated table has the columns \<^verbatim>\<open>WVHT\<close> and
  \<^verbatim>\<open>DPD\<close>, the rows whose \<^verbatim>\<open>WVHT\<close> cell is the unit marker \<^verbatim>\<open>"m"\<close> are dropped. If every
  other row has cells that convert to floating point in both columns, the station yields
  a Dataset that holds exactly those other rows, in ascending order of time. If one of the
  other rows has a cell that does not convert, the conversion raises, the station is
  skipped as a whole and \<open>data_sets\<close> is left as it was.
\<close>

theorem unit_rows_dropped_else_station_skipped:
  assumes "request_data lib (map filename df) = Returned data_dict"
    and "pd_concat lib (map (to_datetime_index lib) data_dict) = Returned raw"
    and "''WVHT'' \<in> set (columns raw)" and "''DPD'' \<in> set (columns raw)"
  shows "if \<forall>r \<in> set (raw_rows raw). WVHT r \<noteq> NonNumeric ''m''
                \<longrightarrow> to_float (WVHT r) \<noteq> None \<and> to_float (DPD r) \<noteq> None
         then \<exists>e. station_data lib index df = Returned e
                \<and> sorted (map date (data e))
                \<and> mset (map (\<lambda>r. (date r, Numeric (hm0 r), Numeric (tp r))) (data e))
                    = mset (map (\<lambda>r. (time r, WVHT r, DPD r))
                         (filter (\<lambda>r. WVHT r \<noteq> NonNumeric ''m'') (raw_rows raw)))
         else station_data lib index df = Raised
                \<and> data_sets (gather lib [(index, df)] st) = data_sets st"
proof (cases "\<forall>r \<in> set (raw_rows raw). WVHT r \<noteq> NonNumeric ''m''
                \<longrightarrow> to_float (WVHT r) \<noteq> None \<and> to_float (DPD r) \<noteq> None")
  case True
  let ?kept = "filter (\<lambda>r. WVHT r \<noteq> NonNumeric ''m'') (raw_rows raw)"
  from True have "astype_float ?kept \<noteq> None"
    by (auto simp: astype_float_None)
  then obtain obs where obs: "normalize_table raw = Inr obs"
    using assms(3,4) by (auto simp: normalize_table_def Let_def)
  define rows where "rows = map (\<lambda>(t, h, p).
      \<lparr>hm0 = h, tp = p, date = t, data_set_id = index + 1\<rparr>) obs"
  define e where "e = \<lparr>data = rows, data_size = of_nat (memory_usage lib rows) / 1000000\<rparr>"
  have sd: "station_data lib index df = Returned e"
    using assms(1,2) obs by (simp add: station_data_def Let_def e_def rows_def)
  have d: "map date (data e) = map fst obs"
    by (auto simp: e_def rows_def)
  have m: "map (\<lambda>r. (date r, Numeric (hm0 r), Numeric (tp r))) (data e)
      = map (\<lambda>(t, h, p). (t, Numeric h, Numeric p)) obs"
    by (auto simp: e_def rows_def)
  from normalize_table_Inr[OF obs] sd d m True show ?thesis
    by (simp only: if_True) metis
next
  case False
  let ?kept = "filter (\<lambda>r. WVHT r \<noteq> NonNumeric ''m'') (raw_rows raw)"
  from False have "astype_float ?kept = None"
    by (auto simp: astype_float_None)
  then have "normalize_table raw = Inl ValueError"
    using assms(3,4) by (simp add: normalize_table_def Let_def)
  then have sd: "station_data lib index df = Raised"
    using assms(1,2) by (simp add: station_data_def)
  then have "data_sets (gather lib [(index, df)] st) = data_sets st"
    by (simp add: body_def Let_def)
  with sd False show ?thesis by simp
qed

text \<open>
  Claim C4 as stated fails: a station whose table has one row with a non-numeric
  \<^verbatim>\<open>WVHT\<close> cell other than \<^verbatim>\<open>"m"\<close> (here \<^verbatim>\<open>"MM"\<close>) and one valid row yields no Dataset
  at all, instead of a Dataset with the valid row.
\<close>

theorem station_level_drop_counterexample:
  "normalize_table corrupt_frame = Inl ValueError
   \<and> data_sets (accumulate (lib_of req_c_corrupt 300000000) [station_c]) = []"
  by (simp add: acc_eval upto.simps)

text \<open>The hypotheses of the theorem for C4 hold for the first station and the table
  with a unit row, and the station is not skipped.\<close>

theorem unit_rows_dropped_else_station_skipped_witness:
  "request_data (lib_of req_c_corrupt 300000000) (map filename station_a) = Returned [clean_frame]
   \<and> pd_concat (lib_of req_c_corrupt 300000000)
        (map (to_datetime_index (lib_of req_c_corrupt 300000000)) [clean_frame]) = Returned clean_frame
   \<and> ''WVHT'' \<in> set (columns clean_frame) \<and> ''DPD'' \<in> set (columns clean_frame)
   \<and> station_data (lib_of req_c_corrupt 300000000) 0 station_a \<noteq> Raised"
proof -
  have h1: "request_data (lib_of req_c_corrupt 300000000) (map filename station_a) = Returned [clean_frame]"
    by (simp add: acc_eval upto.simps)
  have h2: "pd_concat (lib_of req_c_corrupt 300000000)
        (map (to_datetime_index (lib_of req_c_corrupt 300000000)) [clean_frame]) = Returned clean_frame"
    by (simp add: acc_eval upto.simps)
  have h3: "''WVHT'' \<in> set (columns clean_frame)" by (simp add: acc_eval upto.simps)
  have h4: "''DPD'' \<in> set (columns clean_frame)" by (simp add: acc_eval upto.simps)
  have c: "\<forall>r \<in> set (raw_rows clean_frame). WVHT r \<noteq> NonNumeric ''m''
                \<longrightarrow> to_float (WVHT r) \<noteq> None \<and> to_float (DPD r) \<noteq> None"
    by (simp add: clean_frame_def)
  from unit_rows_dropped_else_station_skipped[OF h1 h2 h3 h4, of 0 acc_init, unfolded if_P[OF c]]
  have "station_data (lib_of req_c_corrupt 300000000) 0 station_a \<noteq> Raised"
    by auto
  with h1 h2 h3 h4 show ?thesis by blast
qed


subsection \<open>Dataset identifiers\<close>

text \<open>
  Claim C3, as amended. The identifier of a Dataset is the position of its station in
  \<^verbatim>\<open>found\<close>, counted from 1: the identifiers of the accumulated Datasets are strictly
  increasing, lie between 1 and the number of eligible stations, the Dataset under
  identifier \<open>k\<close> is the data of the station at position \<open>k - 1\<close> and each of its rows
  carries \<open>k\<close> in \<^verbatim>\<open>data_set_id\<close>. A station that yields no data keeps its identifier:
  no Dataset has it, and later stations do not move up.
\<close>

theorem data_set_id_is_loop_position:
  "sorted_wrt (<) (map fst (data_sets (accumulate lib fnd)))
   \<and> (\<forall>p \<in> set (data_sets (accumulate lib fnd)).
         1 \<le> fst p \<and> fst p \<le> length fnd
         \<and> station_data lib (fst p - 1) (fnd ! (fst p - 1)) = Returned (snd p)
         \<and> (\<forall>r \<in> set (data (snd p)). data_set_id r = fst p))
   \<and> (\<forall>i. (\<forall>e. station_data lib i (fnd ! i) \<noteq> Returned e)
         \<longrightarrow> Suc i \<notin> fst ` set (data_sets (accumulate lib fnd)))"
proof -
  note a = accumulate_data_sets[of lib fnd]
  have ids: "\<forall>r \<in> set (data (snd p)). data_set_id r = fst p"
    if "p \<in> set (data_sets (accumulate lib fnd))" for p
  proof -
    from a that have "1 \<le> fst p"
      "station_data lib (fst p - 1) (fnd ! (fst p - 1)) = Returned (snd p)" by auto
    with station_data_ids[of lib "fst p - 1" "fnd ! (fst p - 1)" "snd p"] show ?thesis by simp
  qed
  have skip: "Suc i \<notin> fst ` set (data_sets (accumulate lib fnd))"
    if "\<forall>e. station_data lib i (fnd ! i) \<noteq> Returned e" for i
  proof
    assume "Suc i \<in> fst ` set (data_sets (accumulate lib fnd))"
    then obtain p where "p \<in> set (data_sets (accumulate lib fnd))" "fst p = Suc i" by auto
    with a have "station_data lib i (fnd ! i) = Returned (snd p)" by fastforce
    with that show False by simp
  qed
  from a ids skip show ?thesis by blast
qed

text \<open>
  Claim C3 as stated fails: when the fetch of the first of two eligible stations raises,
  the only accumulated Dataset has identifier 2, so the identifiers are not 1, ..., n.
\<close>

theorem contiguous_ids_counterexample:
  "map fst (data_sets (accumulate (lib_of req_a_fails 300000000) [station_a, station_c])) = [2]
   \<and> map fst (data_sets (accumulate (lib_of req_a_fails 300000000) [station_a, station_c]))
       \<noteq> [1..<Suc (length (data_sets (accumulate (lib_of req_a_fails 300000000) [station_a, station_c])))]"
  by (simp add: acc_eval upto.simps)

text \<open>The theorem for C3 at that input: the first station yields no data and the
  identifier 1 is not used.\<close>

theorem data_set_id_is_loop_position_witness:
  "(\<forall>e. station_data (lib_of req_a_fails 300000000) 0 ([station_a, station_c] ! 0) \<noteq> Returned e)
   \<and> Suc 0 \<notin> fst ` set (data_sets (accumulate (lib_of req_a_fails 300000000) [station_a, station_c]))
   \<and> data_sets (accumulate (lib_of req_a_fails 300000000) [station_a, station_c]) \<noteq> []"
proof -
  have h: "\<forall>e. station_data (lib_of req_a_fails 300000000) 0 ([station_a, station_c] ! 0) \<noteq> Returned e"
    by (simp add: acc_eval upto.simps)
  have n: "data_sets (accumulate (lib_of req_a_fails 300000000) [station_a, station_c]) \<noteq> []"
    by (simp add: acc_eval upto.simps)
  from data_set_id_is_loop_position[of "lib_of req_a_fails 300000000" "[station_a, station_c]"] h
  have "Suc 0 \<notin> fst ` set (data_sets (accumulate (lib_of req_a_fails 300000000) [station_a, station_c]))"
    by blast
  with h n show ?thesis by blast
qed

subsection \<open>The memory budget\<close>

text \<open>
  Claim C5. The running total is the sum of the sizes of the accumulated Datasets. Before
  each Dataset was added the total of the Datasets before it was below the budget, so
  nothing is added once the total has reached the budget; and the final total is below
  the budget plus the size of the last Dataset added (it is 0 when none was added).
\<close>

theorem budget_overshoot_bounded_by_last:
  "mem_used (accumulate lib fnd) = (\<Sum>p\<leftarrow>data_sets (accumulate lib fnd). data_size (snd p))
   \<and> (\<forall>j<length (data_sets (accumulate lib fnd)).
        (\<Sum>p\<leftarrow>take j (data_sets (accumulate lib fnd)). data_size (snd p)) < mem_desired)
   \<and> (data_sets (accumulate lib fnd) = [] \<longrightarrow> mem_used (accumulate lib fnd) = 0)
   \<and> (data_sets (accumulate lib fnd) \<noteq> [] \<longrightarrow>
        mem_used (accumulate lib fnd)
          < mem_desired + data_size (snd (last (data_sets (accumulate lib fnd)))))"
proof -
  let ?ds = "data_sets (accumulate lib fnd)"
  note b = accumulate_budget[of lib fnd]
  have "mem_used (accumulate lib fnd) < mem_desired + data_size (snd (last ?ds))" if ne: "?ds \<noteq> []"
  proof -
    from ne have l: "length ?ds - 1 < length ?ds" by simp
    with b have lt: "(\<Sum>p\<leftarrow>take (length ?ds - 1) ?ds. data_size (snd p)) < mem_desired" by blast
    from ne have "?ds = take (length ?ds - 1) ?ds @ [last ?ds]"
      by (metis append_butlast_last_id butlast_conv_take)
    then have "(\<Sum>p\<leftarrow>?ds. data_size (snd p))
        = (\<Sum>p\<leftarrow>take (length ?ds - 1) ?ds. data_size (snd p)) + data_size (snd (last ?ds))"
      by (metis (no_types, lifting) list.simps(8,9) map_append sum_list.Cons sum_list.Nil sum_list.append add.right_neutral)
    with lt b show ?thesis by simp
  qed
  moreover have "?ds = [] \<longrightarrow> mem_used (accumulate lib fnd) = 0"
    using b by simp
  ultimately show ?thesis using b by blast
qed

text \<open>The theorem for C5 at four stations of 300 MB each, the first of which is
  skipped: two Datasets are accumulated, the total is 600 MB.\<close>

theorem budget_overshoot_bounded_by_last_witness:
  "data_sets (accumulate (lib_of req_a_fails 300000000) [station_a, station_c, station_b, station_c]) \<noteq> []
   \<and> mem_used (accumulate (lib_of req_a_fails 300000000) [station_a, station_c, station_b, station_c]) = 600
   \<and> mem_used (accumulate (lib_of req_a_fails 300000000) [station_a, station_c, station_b, station_c])
       < mem_desired + data_size (snd (last (data_sets
           (accumulate (lib_of req_a_fails 300000000) [station_a, station_c, station_b, station_c]))))"
proof -
  have n: "data_sets (accumulate (lib_of req_a_fails 300000000) [station_a, station_c, station_b, station_c]) \<noteq> []"
    by (simp add: acc_eval upto.simps)
  have m: "mem_used (accumulate (lib_of req_a_fails 300000000) [station_a, station_c, station_b, station_c]) = 600"
    by (simp add: acc_eval upto.simps)
  from budget_overshoot_bounded_by_last[of "lib_of req_a_fails 300000000" "[station_a, station_c, station_b, station_c]"] n m
  show ?thesis by blast
qed

subsection \<open>The year-span filter\<close>

text \<open>
  Claim C7. A station with fewer distinct years of available data than \<open>year_span\<close>
  (10) is not an element of \<^verbatim>\<open>found\<close>; the accumulation over \<^verbatim>\<open>found\<close> never prints it
  (the print that precedes every fetch), and every accumulated Dataset is the data of a
  station of \<^verbatim>\<open>found\<close> that is not this station.
\<close>

theorem short_span_station_never_selected:
  assumes "length (unique (map year (filter (\<lambda>r. buoy_id r = b) available_buoys))) < year_span"
  shows "(\<forall>d \<in> set (found available_buoys). b \<notin> buoy_id ` set d)
    \<and> (\<forall>p \<in> set (stdout (accumulate lib (found available_buoys))). b \<notin> set (fst p))
    \<and> (\<forall>p \<in> set (data_sets (accumulate lib (found available_buoys))).
          1 \<le> fst p \<and> fst p \<le> length (found available_buoys)
          \<and> station_data lib (fst p - 1) (found available_buoys ! (fst p - 1)) = Returned (snd p)
          \<and> b \<notin> buoy_id ` set (found available_buoys ! (fst p - 1)))"
proof -
  have f: "b \<notin> buoy_id ` set d" if "d \<in> set (found available_buoys)" for d
  proof
    assume bd: "b \<in> buoy_id ` set d"
    from found_mem[OF that] obtain b' where
      b': "d = filter (\<lambda>r. buoy_id r = b') available_buoys" "year_span \<le> card (year ` set d)"
      by blast
    from bd b'(1) have "b' = b" by auto
    with b' assms show False by (simp add: length_unique)
  qed
  have s: "b \<notin> set (fst p)" if "p \<in> set (stdout (accumulate lib (found available_buoys)))" for p
  proof -
    from accumulate_stdout[OF that] obtain df where
      "df \<in> set (found available_buoys)" "fst p = unique (map buoy_id df)" by blast
    with f[of df] show ?thesis by simp
  qed
  have d: "1 \<le> fst p \<and> fst p \<le> length (found available_buoys)
          \<and> station_data lib (fst p - 1) (found available_buoys ! (fst p - 1)) = Returned (snd p)
          \<and> b \<notin> buoy_id ` set (found available_buoys ! (fst p - 1))"
    if "p \<in> set (data_sets (accumulate lib (found available_buoys)))" for p
  proof -
    from accumulate_data_sets[of lib "found available_buoys"] that
    have a: "1 \<le> fst p" "fst p \<le> length (found available_buoys)"
      "station_data lib (fst p - 1) (found available_buoys ! (fst p - 1)) = Returned (snd p)"
      by auto
    then have "found available_buoys ! (fst p - 1) \<in> set (found available_buoys)"
      by (simp add: nth_mem)
    with f a show ?thesis by blast
  qed
  from f s d show ?thesis by blast
qed

text \<open>The theorem for C7 at three stations with 12, 3 and 12 years: the station with
  3 years is not selected.\<close>

theorem short_span_station_never_selected_witness:
  "length (unique (map year (filter (\<lambda>r. buoy_id r = ''44099'') (station_a @ station_b @ station_c)))) < year_span
   \<and> found (station_a @ station_b @ station_c) = [station_a, station_c]
   \<and> ''44099'' \<notin> buoy_id ` set station_a"
proof -
  have h: "length (unique (map year (filter (\<lambda>r. buoy_id r = ''44099'') (station_a @ station_b @ station_c)))) < year_span"
    by code_simp
  have fd: "found (station_a @ station_b @ station_c) = [station_a, station_c]"
    by code_simp
  from short_span_station_never_selected[OF h, of "lib_of req_a_fails 300000000"] fd
  have "''44099'' \<notin> buoy_id ` set station_a" by simp
  with h fd show ?thesis by blast
qed
section \<open>Properties of the writer and the harness\<close>

subsection \<open>Sampling and request windows\<close>

lemma distinct_update_fresh:
  "distinct xs \<Longrightarrow> l \<notin> set xs \<Longrightarrow> j < length xs \<Longrightarrow> distinct (xs[j := l])"
proof (induction xs arbitrary: j)
  case Nil
  then show ?case by simp
next
  case (Cons x xs)
  show ?case
  proof (cases j)
    case 0
    with Cons.prems show ?thesis by simp
  next
    case (Suc j')
    have "set (xs[j' := l]) \<subseteq> insert l (set xs)"
      by (rule set_update_subset_insert)
    with Cons.prems have "x \<notin> set (xs[j' := l])" by auto
    moreover from Cons.prems Suc have "distinct (xs[j' := l])"
      by (intro Cons.IH) auto
    ultimately show ?thesis using Suc by simp
  qed
qed

lemma swap_out:
  assumes "distinct pool" "j < length pool"
  shows "distinct (butlast (pool[j := last pool]))
       \<and> set (butlast (pool[j := last pool])) = set pool - {pool ! j}"
proof -
  from assms obtain xs l where p: "pool = xs @ [l]"
    by (cases pool rule: rev_cases) auto
  show ?thesis
  proof (cases "j = length xs")
    case True
    with p assms show ?thesis by auto
  next
    case False
    with assms p have j: "j < length xs" by simp
    then have eq: "butlast (pool[j := last pool]) = xs[j := l]"
      using p by (simp add: list_update_append)
    have d: "distinct xs" "l \<notin> set xs" using assms p by auto
    have "distinct (xs[j := l])"
      using d j by (rule distinct_update_fresh)
    moreover have "set (xs[j := l]) = insert l (set xs - {xs ! j})"
      using d j by (metis set_update_distinct)
    moreover have "pool ! j = xs ! j" using p j by (simp add: nth_append)
    ultimately show ?thesis using eq p d j by auto
  qed
qed

lemma sample_pool_props:
  "distinct pool \<Longrightarrow> k \<le> length pool \<Longrightarrow>
     length (fst (sample_pool g pool k)) = k
     \<and> distinct (fst (sample_pool g pool k))
     \<and> set (fst (sample_pool g pool k)) \<subseteq> set pool"
proof (induction k arbitrary: g pool)
  case 0
  then show ?case by simp
next
  case (Suc k)
  define j where "j = fst (randbelow g (length pool))"
  define g' where "g' = snd (randbelow g (length pool))"
  define pool' where "pool' = butlast (pool[j := last pool])"
  from Suc.prems have ne: "pool \<noteq> []" by auto
  have j: "j < length pool"
    using ne by (cases g) (auto simp: j_def)
  from swap_out[OF Suc.prems(1) j]
  have dist': "distinct pool'" and set': "set pool' = set pool - {pool ! j}"
    by (simp_all add: pool'_def)
  have len': "k \<le> length pool'"
    using Suc.prems by (simp add: pool'_def)
  from Suc.IH[OF dist' len', of g'] have IH:
    "length (fst (sample_pool g' pool' k)) = k"
    "distinct (fst (sample_pool g' pool' k))"
    "set (fst (sample_pool g' pool' k)) \<subseteq> set pool'" by auto
  have eq: "fst (sample_pool g pool (Suc k)) = pool ! j # fst (sample_pool g' pool' k)"
    by (simp add: Let_def j_def g'_def pool'_def)
  show ?case
    unfolding eq using IH set' j by auto
qed

lemma random_sample_two:
  assumes "random_sample g [a..b - 1] 2 = Inr yg"
  shows "a \<le> Min (set (fst yg)) \<and> Min (set (fst yg)) < Max (set (fst yg))
       \<and> Max (set (fst yg)) < b"
proof -
  from assms have len: "2 \<le> length [a..b - 1]" and yg: "yg = sample_pool g [a..b - 1] 2"
    by (auto simp: random_sample_def split: if_splits)
  from sample_pool_props[of "[a..b - 1]" 2 g] len
  have p: "length (fst yg) = 2" "distinct (fst yg)" "set (fst yg) \<subseteq> set [a..b - 1]"
    by (auto simp: yg)
  from p(1) obtain y1 y2 where ys: "fst yg = [y1, y2]"
    by (metis One_nat_def Suc_1 length_0_conv length_Suc_conv)
  with p(2,3) have "y1 \<noteq> y2" "a \<le> y1" "y1 < b" "a \<le> y2" "y2 < b" by auto
  then show ?thesis by (auto simp: ys)
qed

lemma random_sample_fails:
  "random_sample g [a..b - 1] 2 = Inl e \<longleftrightarrow> e = ValueError \<and> b - a < 2"
  by (auto simp: random_sample_def)

lemma date_min_Some: "ds \<noteq> [] \<Longrightarrow> date_min ds = Some (Min (set ds))"
proof (cases ds)
  case (Cons d ds')
  then show ?thesis using Min.set_eq_fold[of d ds'] by simp
qed simp

lemma date_max_Some: "ds \<noteq> [] \<Longrightarrow> date_max ds = Some (Max (set ds))"
proof (cases ds)
  case (Cons d ds')
  then show ?thesis using Max.set_eq_fold[of d ds'] by simp
qed simp

lemma req_info_Some:
  assumes "d \<in> set (req_info db)"
  shows "\<exists>lo hi. snd d = (Some lo, Some hi)"
proof -
  from assms obtain i where i: "i \<in> set (map data_set_id (row_data db))"
    and d: "d = (i, date_min (map date (filter (\<lambda>r. data_set_id r = i) (row_data db))),
                  date_max (map date (filter (\<lambda>r. data_set_id r = i) (row_data db))))"
    by (auto simp: req_info_def Let_def)
  from i have "map date (filter (\<lambda>r. data_set_id r = i) (row_data db)) \<noteq> []"
    by (auto simp: filter_empty_conv)
  then show ?thesis
    by (simp add: d date_min_Some date_max_Some)
qed

lemma build_requests_windows:
  "build_requests g info = Inr requests \<Longrightarrow>
     list_all2 (\<lambda>d r. req_id r = fst d
         \<and> (\<exists>lo hi. snd d = (Some lo, Some hi) \<and> year_of lo \<le> start_year r
               \<and> start_year r < end_year r \<and> end_year r < year_of hi)) info requests"
proof (induction info arbitrary: g requests)
  case Nil
  then show ?case by simp
next
  case (Cons d info)
  from Cons.prems obtain lo hi yg reqs where
    s: "snd d = (Some lo, Some hi)"
    and y: "random_sample g [year_of lo..year_of hi - 1] 2 = Inr yg"
    and r: "build_requests (snd yg) info = Inr reqs"
    and q: "requests = \<lparr>req_id = fst d, start_year = Min (set (fst yg)),
                          end_year = Max (set (fst yg))\<rparr> # reqs"
    by (cases d) (auto split: option.splits sum.splits)
  from random_sample_two[OF y] s
  have "\<exists>lo hi. snd d = (Some lo, Some hi) \<and> year_of lo \<le> Min (set (fst yg))
      \<and> Min (set (fst yg)) < Max (set (fst yg)) \<and> Max (set (fst yg)) < year_of hi"
    by blast
  with Cons.IH[OF r] q show ?case by (simp del: split_paired_Ex)
qed

lemma build_requests_total:
  "\<forall>d \<in> set info. \<exists>lo hi. snd d = (Some lo, Some hi) \<and> year_of lo + 2 \<le> year_of hi \<Longrightarrow>
     \<exists>requests. build_requests g info = Inr requests"
proof (induction info arbitrary: g)
  case Nil
  then show ?case by simp
next
  case (Cons d info)
  then obtain lo hi where s: "snd d = (Some lo, Some hi)" "year_of lo + 2 \<le> year_of hi"
    by auto
  define yg where "yg = sample_pool g [year_of lo..year_of hi - 1] 2"
  from s have y: "random_sample g [year_of lo..year_of hi - 1] 2 = Inr yg"
    by (simp add: random_sample_def yg_def)
  from Cons obtain reqs where "build_requests (snd yg) info = Inr reqs"
    by (meson list.set_intros(2))
  with s y show ?case by (cases d) auto
qed

lemma build_requests_short:
  assumes "\<forall>d \<in> set info. \<exists>lo hi. snd d = (Some lo, Some hi)"
    and "\<exists>d \<in> set info. \<exists>lo hi. snd d = (Some lo, Some hi) \<and> year_of hi - year_of lo < 2"
  shows "build_requests g info = Inl ValueError"
  using assms
proof (induction info arbitrary: g)
  case Nil
  then show ?case by simp
next
  case (Cons d info)
  from Cons.prems(1) obtain lo hi where s: "snd d = (Some lo, Some hi)" by auto
  show ?case
  proof (cases "random_sample g [year_of lo..year_of hi - 1] 2")
    case (Inl e)
    then have "e = ValueError" by (simp add: random_sample_fails)
    with Inl s show ?thesis by (cases d) auto
  next
    case (Inr yg)
    then have "\<not> year_of hi - year_of lo < 2"
      by (auto simp: random_sample_def split: if_splits)
    with Cons.prems(2) s
    have "\<exists>d \<in> set info. \<exists>lo hi. snd d = (Some lo, Some hi) \<and> year_of hi - year_of lo < 2"
      by auto
    with Cons.IH[of "snd yg"] Cons.prems(1) have "build_requests (snd yg) info = Inl ValueError"
      by simp
    with Inr s show ?thesis by (cases d) auto
  qed
qed

text \<open>
  Claim C8. A row of \<^verbatim>\<open>req_info\<close> is a Dataset with its least and greatest date;
  \<open>minYear\<close> and \<open>maxYear\<close> are their years. When every span has at least two years to
  sample from, the loop returns a request per Dataset, whatever the generator draws; and
  whenever it returns, the window of every Dataset satisfies
  \<open>minYear \<le> start_year < end_year < maxYear\<close>.
\<close>

theorem window_strictly_inside_span:
  "((\<forall>d \<in> set info. \<exists>lo hi. snd d = (Some lo, Some hi) \<and> year_of lo + 2 \<le> year_of hi)
      \<longrightarrow> (\<exists>requests. build_requests g info = Inr requests))
   \<and> (\<forall>requests. build_requests g info = Inr requests \<longrightarrow>
        list_all2 (\<lambda>d r. req_id r = fst d
          \<and> (\<exists>lo hi. snd d = (Some lo, Some hi) \<and> year_of lo \<le> start_year r
                \<and> start_year r < end_year r \<and> end_year r < year_of hi)) info requests)"
  using build_requests_total[of info g] build_requests_windows[of g info] by blast

text \<open>
  Claim C10. If the rows of one Dataset have \<open>maxYear - minYear < 2\<close>, then
  \<^verbatim>\<open>random.sample(range(minYear, maxYear), 2)\<close> raises \<^verbatim>\<open>ValueError\<close> whatever the generator
  draws, the loop that builds the requests raises it, and the run ends with this
  exception before the first scan: no report is written.
\<close>

theorem short_span_aborts_run:
  assumes "(i, Some lo, Some hi) \<in> set (req_info db)" and "year_of hi - year_of lo < 2"
  shows "random_sample g' [year_of lo..year_of hi - 1] 2 = Inl ValueError
       \<and> build_requests g (req_info db) = Inl ValueError
       \<and> benchmark rt g db = \<lparr>raised = Some ValueError, files = []\<rparr>"
proof -
  have a: "\<forall>d \<in> set (req_info db). \<exists>lo hi. snd d = (Some lo, Some hi)"
    using req_info_Some by blast
  have b: "\<exists>d \<in> set (req_info db). \<exists>lo hi. snd d = (Some lo, Some hi) \<and> year_of hi - year_of lo < 2"
    using assms(2) by (intro bexI[OF _ assms(1)]) simp
  from build_requests_short[OF a b]
  have c: "build_requests g (req_info db) = Inl ValueError" .
  have "random_sample g' [year_of lo..year_of hi - 1] 2 = Inl ValueError"
    using assms(2) by (simp add: random_sample_def)
  with c show ?thesis by (simp add: benchmark_def)
qed

subsection \<open>Scans\<close>

lemma read_blob_missing:
  "\<forall>b \<in> set (binary_data db). fst b \<noteq> i \<Longrightarrow> read_blob rt db i = Inl IndexError"
  by (simp add: read_blob_def filter_empty_conv[THEN iffD2])


lemma scan_prefix_fails:
  assumes "\<forall>j \<in> set before. \<exists>m. step j = Inr m" and "step i = Inl e"
  shows "scan step (before @ i # after) = Inl e"
  using assms by (induction before) auto

lemma scan_member_fails:
  assumes "i \<in> set ids" and "step i = Inl e"
  shows "\<exists>e'. scan step ids = Inl e'"
  using assms by (induction ids) (auto split: sum.splits)







text \<open>
  Claim C9. If the blob table has no row for an identifier, the iteration of the full scan
  for this identifier and the iteration of the filtered scan for a request with this
  identifier raise \<^verbatim>\<open>IndexError\<close> (\<^verbatim>\<open>res[0]\<close> on an empty result). The full scan over a
  list of identifiers raises it when it reaches the identifier, that is when the
  iterations before it return. If the identifier is one of the hard-coded 1, ..., 57, no
  run completes and no report is written.
\<close>

theorem missing_blob_raises_index_error:
  assumes "\<forall>b \<in> set (binary_data db). fst b \<noteq> i"
  shows "full_scan_step rt db i = Inl IndexError
    \<and> (\<forall>param. req_id param = i \<longrightarrow> filtered_scan_step rt db param = Inl IndexError)
    \<and> (\<forall>before after. (\<forall>j \<in> set before. \<exists>m. full_scan_step rt db j = Inr m)
          \<longrightarrow> scan (full_scan_step rt db) (before @ i # after) = Inl IndexError)
    \<and> (i \<in> set availabe_ids
          \<longrightarrow> raised (benchmark rt g db) \<noteq> None \<and> files (benchmark rt g db) = [])"
proof -
  have full: "full_scan_step rt db i = Inl IndexError"
    using read_blob_missing[OF assms] by (simp add: full_scan_step_def Let_def)
  have filt: "filtered_scan_step rt db param = Inl IndexError" if "req_id param = i" for param
    using read_blob_missing[OF assms] that by (simp add: filtered_scan_step_def Let_def)
  have pre: "scan (full_scan_step rt db) (before @ i # after) = Inl IndexError"
    if "\<forall>j \<in> set before. \<exists>m. full_scan_step rt db j = Inr m" for before after
    using scan_prefix_fails[where step="full_scan_step rt db" and i=i and e=IndexError and before=before and after=after] that full by blast
  have run: "raised (benchmark rt g db) \<noteq> None \<and> files (benchmark rt g db) = []"
    if "i \<in> set availabe_ids"
  proof -
    from scan_member_fails[where step="full_scan_step rt db" and i=i and e=IndexError and ids=availabe_ids] that full obtain e where
      "scan (full_scan_step rt db) availabe_ids = Inl e" by blast
    then show ?thesis by (simp add: benchmark_def split: sum.splits)
  qed
  from full filt pre run show ?thesis by blast
qed


subsection \<open>The payload\<close>

lemma split_on_none: "c \<notin> set s \<Longrightarrow> split_on c s = [s]"
  by (induction s) auto

lemma split_on_append: "c \<notin> set s \<Longrightarrow> split_on c (s @ c # t) = s # split_on c t"
  by (induction s) auto

lemma split_on_join:
  "fs \<noteq> [] \<Longrightarrow> \<forall>f \<in> set fs. c \<notin> set f \<Longrightarrow> split_on c (join [c] fs) = fs"
proof (induction "[c]" fs rule: join.induct)
  case 1
  then show ?case by simp
next
  case (2 x)
  then show ?case by (simp add: split_on_none)
next
  case (3 x y ys)
  then show ?case by (simp add: split_on_append)
qed

lemma split_on_lines:
  "\<forall>l \<in> set ls. c \<notin> set l \<Longrightarrow> split_on c (concat (map (\<lambda>l. l @ [c]) ls)) = ls @ [[]]"
  by (induction ls) (simp_all add: split_on_append)

lemma set_join: "set (join sep fs) \<subseteq> set sep \<union> \<Union> (set ` set fs)"
  by (induction sep fs rule: join.induct) auto

lemma join_nonempty: "2 \<le> length fs \<Longrightarrow> sep \<noteq> [] \<Longrightarrow> join sep fs \<noteq> []"
  by (induction sep fs rule: join.induct) auto

lemma set_string_of_nat: "set (string_of_nat n) \<subseteq> set ''0123456789''"
proof (induction n rule: string_of_nat.induct)
  case (1 n)
  have d: "''0123456789'' ! k \<in> set ''0123456789''" if "k < 10" for k
    using that nth_mem[of k "''0123456789''"] by simp
  show ?case
  proof (cases "n < 10")
    case True
    with d[of n] show ?thesis by (subst string_of_nat.simps) (simp del: string_of_nat.simps)
  next
    case False
    have "n mod 10 < 10" by simp
    with d[of "n mod 10"] 1 False show ?thesis
      by (subst string_of_nat.simps) (simp del: string_of_nat.simps)
  qed
qed

lemma plain_string_of_nat: "plain (string_of_nat n)"
  using set_string_of_nat[of n] by (auto simp: plain_def)

lemma those_map_Some:
  "\<forall>x \<in> set xs. f x = Some (h x) \<Longrightarrow> those (map f xs) = Some (map h xs)"
  by (induction xs) auto

lemma string_of_nat_0: "string_of_nat 0 = ''0''"
  by (subst string_of_nat.simps) simp

lemma join_csv_header:
  "join '','' (csv_header rt) = (if wvht_first rt then '',hm0,tp,date'' else '',tp,hm0,date'')"
  by (simp add: csv_header_def)

lemma mangle_csv_header:
  "mangle_names (csv_header rt) = ''Unnamed: 0'' # tl (csv_header rt)"
  by (simp add: mangle_names_def csv_header_def enumerate_eq_zip string_of_nat_0 upt_rec)

lemma length_csv_fields: "length (csv_fields rt ob) = 3"
  by (cases ob) (simp add: csv_fields_def)

lemma plain_csv_fields:
  assumes "formats_round_trip rt obs" and "ob \<in> set obs"
  shows "\<forall>f \<in> set (csv_fields rt ob). plain f"
  using assms by (cases ob) (auto simp: formats_round_trip_def csv_fields_def)

lemma read_csv_to_csv:
  assumes "formats_round_trip rt obs"
  shows "read_csv (to_csv rt obs)
    = Inr \<lparr>names = ''Unnamed: 0'' # tl (csv_header rt),
           cells = map (\<lambda>x. string_of_nat (fst x) # csv_fields rt (snd x)) (enumerate 0 obs)\<rparr>"
proof -
  let ?recs = "map (\<lambda>x. string_of_nat (fst x) # csv_fields rt (snd x)) (enumerate 0 obs)"
  let ?h = "join '','' (csv_header rt)"
  let ?ls = "map (join '','') ?recs"
  have fields: "\<forall>f \<in> set r. plain f" "length r = 4" if "r \<in> set ?recs" for r
  proof -
    from that obtain x where x: "x \<in> set (enumerate 0 obs)"
      "r = string_of_nat (fst x) # csv_fields rt (snd x)" by auto
    from x(1) have "fst x < length obs" "obs ! fst x = snd x"
      by (simp_all add: in_set_enumerate_eq)
    then have "snd x \<in> set obs" using nth_mem[of "fst x" obs] by simp
    from plain_csv_fields[OF assms this] x(2) plain_string_of_nat
    show "\<forall>f \<in> set r. plain f" by simp
    from x(2) show "length r = 4" by (simp add: length_csv_fields)
  qed
  have payload: "to_csv rt obs = concat (map (\<lambda>l. l @ [CHR 0x0A]) (?h # ?ls))"
    by (simp add: to_csv_def comp_def)
  have nl: "\<forall>l \<in> set (?h # ?ls). CHR 0x0A \<notin> set l"
  proof
    fix l assume "l \<in> set (?h # ?ls)"
    then consider "l = ?h" | r where "r \<in> set ?recs" "l = join '','' r" by auto
    then show "CHR 0x0A \<notin> set l"
    proof cases
      case 1
      then show ?thesis by (simp add: join_csv_header)
    next
      case 2
      with fields(1)[OF 2(1)] set_join[of "'',''" r] show ?thesis
        by (auto simp: plain_def)
    qed
  qed
  have ne: "\<forall>l \<in> set (?h # ?ls). l \<noteq> []"
  proof
    fix l assume "l \<in> set (?h # ?ls)"
    then consider "l = ?h" | r where "r \<in> set ?recs" "l = join '','' r" by auto
    then show "l \<noteq> []"
    proof cases
      case 1
      then show ?thesis by (simp add: join_csv_header)
    next
      case 2
      with fields(2)[OF 2(1)] join_nonempty[of r "'',''"] show ?thesis by simp
    qed
  qed
  have lines: "filter (\<lambda>l. l \<noteq> []) (split_on (CHR 0x0A) (to_csv rt obs)) = ?h # ?ls"
    unfolding payload split_on_lines[OF nl] using ne by (simp add: filter_id_conv)
  have head: "split_on CHR '','' ?h = csv_header rt"
    by (rule split_on_join) (auto simp: csv_header_def)
  have recs: "map (split_on CHR '','') ?ls = ?recs"
  proof -
    have "split_on CHR '','' (join '','' r) = r" if "r \<in> set ?recs" for r
    proof (rule split_on_join)
      from fields(2)[OF that] show "r \<noteq> []" by auto
      from fields(1)[OF that] show "\<forall>f \<in> set r. CHR '','' \<notin> set f" by (simp add: plain_def)
    qed
    then have "map (\<lambda>r. split_on CHR '','' (join '','' r)) ?recs = ?recs"
      by (intro map_idI)
    then show ?thesis by (simp add: comp_def)
  qed
  have len: "length (''Unnamed: 0'' # tl (csv_header rt)) = 4"
    by (simp add: csv_header_def)
  have no_long: "\<not> list_ex (\<lambda>r. 4 < length r) ?recs"
    using fields(2) by (auto simp: list_ex_iff)
  have pad: "map (\<lambda>r. r @ replicate (4 - length r) []) ?recs = ?recs"
    using fields(2) by (intro map_idI) simp
  show ?thesis
    unfolding read_csv_def lines
    by (simp only: list.case Let_def head recs len no_long pad if_False mangle_csv_header)
qed

lemma index_of_names:
  "index_of ''Unnamed: 0'' (''Unnamed: 0'' # tl (csv_header rt)) = Some 0"
  "index_of ''date'' (''Unnamed: 0'' # tl (csv_header rt)) = Some 3"
  "index_of ''hm0'' (''Unnamed: 0'' # tl (csv_header rt)) = Some (if wvht_first rt then 1 else 2)"
  "index_of ''tp'' (''Unnamed: 0'' # tl (csv_header rt)) = Some (if wvht_first rt then 2 else 1)"
  "index_of ''data_set_id'' (''Unnamed: 0'' # tl (csv_header rt)) = None"
  by (simp_all add: csv_header_def)

lemma csv_fields_nth:
  "csv_fields rt ob ! 2 = repr_time rt (snd (snd ob))"
  "csv_fields rt ob ! (if wvht_first rt then 0 else 1) = repr_float rt (fst ob)"
  "csv_fields rt ob ! (if wvht_first rt then 1 else 0) = repr_float rt (fst (snd ob))"
  by (cases ob; simp add: csv_fields_def)+

lemma map_enumerate_snd:
  "map (\<lambda>x. h (snd x)) (enumerate n xs) = map h xs"
  by (induction xs arbitrary: n) simp_all

lemma map_enumerate_fst:
  "map (\<lambda>x. h (fst x)) (enumerate n xs) = map h [n..<n + length xs]"
  by (induction xs arbitrary: n) (simp_all add: upt_rec)

lemma columns_of_payload:
  assumes "formats_round_trip rt obs"
    and "t = \<lparr>names = ''Unnamed: 0'' # tl (csv_header rt),
             cells = map (\<lambda>x. string_of_nat (fst x) # csv_fields rt (snd x)) (enumerate 0 obs)\<rparr>"
  shows "column t ''Unnamed: 0'' = Inr (map string_of_nat [0..<length obs])"
    and "to_datetime rt t ''date'' = Inr (map (\<lambda>ob. snd (snd ob)) obs)"
    and "float_column rt t ''hm0'' = Inr (map fst obs)"
    and "float_column rt t ''tp'' = Inr (map (\<lambda>ob. fst (snd ob)) obs)"
    and "column t ''data_set_id'' = Inl KeyError"
proof -
  show "column t ''Unnamed: 0'' = Inr (map string_of_nat [0..<length obs])"
    using map_enumerate_fst[of string_of_nat 0 obs]
    by (simp add: column_def assms(2) index_of_names comp_def del: index_of.simps)
  show "column t ''data_set_id'' = Inl KeyError"
    by (simp add: column_def assms(2) index_of_names del: index_of.simps)
  have d: "column t ''date'' = Inr (map (\<lambda>ob. repr_time rt (snd (snd ob))) obs)"
    using map_enumerate_snd[of "\<lambda>ob. repr_time rt (snd (snd ob))" 0 obs]
    by (simp add: column_def assms(2) index_of_names comp_def csv_fields_nth del: index_of.simps)
  have "those (map (parse_time rt) (map (\<lambda>ob. repr_time rt (snd (snd ob))) obs))
      = Some (map (\<lambda>ob. snd (snd ob)) obs)"
    unfolding map_map comp_def
    by (rule those_map_Some) (use assms(1) in \<open>simp add: formats_round_trip_def\<close>)
  with d show "to_datetime rt t ''date'' = Inr (map (\<lambda>ob. snd (snd ob)) obs)"
    by (simp add: to_datetime_def)
  have h: "column t ''hm0'' = Inr (map (\<lambda>ob. repr_float rt (fst ob)) obs)"
  proof (cases "wvht_first rt")
    case True
    with csv_fields_nth(2)[of rt] have "\<And>ob. csv_fields rt ob ! 0 = repr_float rt (fst ob)" by simp
    with True show ?thesis
      using map_enumerate_snd[of "\<lambda>ob. repr_float rt (fst ob)" 0 obs]
      by (simp add: column_def assms(2) index_of_names comp_def del: index_of.simps)
  next
    case False
    with csv_fields_nth(2)[of rt] have "\<And>ob. csv_fields rt ob ! 1 = repr_float rt (fst ob)" by simp
    with False show ?thesis
      using map_enumerate_snd[of "\<lambda>ob. repr_float rt (fst ob)" 0 obs]
      by (simp add: column_def assms(2) index_of_names comp_def del: index_of.simps)
  qed
  have "those (map (parse_float rt) (map (\<lambda>ob. repr_float rt (fst ob)) obs)) = Some (map fst obs)"
    unfolding map_map comp_def
    by (rule those_map_Some) (use assms(1) in \<open>simp add: formats_round_trip_def\<close>)
  with h show "float_column rt t ''hm0'' = Inr (map fst obs)"
    by (simp add: float_column_def)
  have p: "column t ''tp'' = Inr (map (\<lambda>ob. repr_float rt (fst (snd ob))) obs)"
  proof (cases "wvht_first rt")
    case True
    with csv_fields_nth(3)[of rt] have "\<And>ob. csv_fields rt ob ! 1 = repr_float rt (fst (snd ob))" by simp
    with True show ?thesis
      using map_enumerate_snd[of "\<lambda>ob. repr_float rt (fst (snd ob))" 0 obs]
      by (simp add: column_def assms(2) index_of_names comp_def del: index_of.simps)
  next
    case False
    with csv_fields_nth(3)[of rt] have "\<And>ob. csv_fields rt ob ! 0 = repr_float rt (fst (snd ob))" by simp
    with False show ?thesis
      using map_enumerate_snd[of "\<lambda>ob. repr_float rt (fst (snd ob))" 0 obs]
      by (simp add: column_def assms(2) index_of_names comp_def del: index_of.simps)
  qed
  have "those (map (parse_float rt) (map (\<lambda>ob. repr_float rt (fst (snd ob))) obs))
      = Some (map (\<lambda>ob. fst (snd ob)) obs)"
    unfolding map_map comp_def
    by (rule those_map_Some) (use assms(1) in \<open>simp add: formats_round_trip_def\<close>)
  with p show "float_column rt t ''tp'' = Inr (map (\<lambda>ob. fst (snd ob)) obs)"
    by (simp add: float_column_def)
qed

lemma drop_data_set_id_maps:
  "map (\<lambda>ob. snd (snd ob)) (map drop_data_set_id rows) = map date rows"
  "map fst (map drop_data_set_id rows) = map hm0 rows"
  "map (\<lambda>ob. fst (snd ob)) (map drop_data_set_id rows) = map tp rows"
  by (simp_all add: drop_data_set_id_def comp_def)

lemma payload_table:
  assumes "formats_round_trip rt (map drop_data_set_id rows)"
  shows "\<exists>t. read_csv (to_csv rt (map drop_data_set_id rows)) = Inr t
    \<and> names t = ''Unnamed: 0''
         # (if wvht_first rt then [''hm0'', ''tp''] else [''tp'', ''hm0'']) @ [''date'']
    \<and> length (cells t) = length rows
    \<and> column t ''Unnamed: 0'' = Inr (map string_of_nat [0..<length rows])
    \<and> to_datetime rt t ''date'' = Inr (map date rows)
    \<and> float_column rt t ''hm0'' = Inr (map hm0 rows)
    \<and> float_column rt t ''tp'' = Inr (map tp rows)
    \<and> column t ''data_set_id'' = Inl KeyError"
proof -
  let ?obs = "map drop_data_set_id rows"
  define t where "t = \<lparr>names = ''Unnamed: 0'' # tl (csv_header rt),
      cells = map (\<lambda>x. string_of_nat (fst x) # csv_fields rt (snd x)) (enumerate 0 ?obs)\<rparr>"
  note c = columns_of_payload[OF assms t_def]
  have "read_csv (to_csv rt ?obs) = Inr t"
    unfolding t_def by (rule read_csv_to_csv[OF assms])
  moreover have "names t = ''Unnamed: 0''
         # (if wvht_first rt then [''hm0'', ''tp''] else [''tp'', ''hm0'']) @ [''date'']"
    by (simp add: t_def csv_header_def)
  moreover have "length (cells t) = length rows"
    by (simp add: t_def)
  ultimately show ?thesis
    using c by (simp add: drop_data_set_id_def)
qed







text \<open>
  Claim C6, as amended. Under the proviso \<open>formats_round_trip\<close>, reading the payload of a
  Dataset gives a table with one line per Observation, in order, whose columns
  \<^verbatim>\<open>date\<close>, \<^verbatim>\<open>hm0\<close> and \<^verbatim>\<open>tp\<close> hold the timestamps and values of the Dataset; it has no
  column \<^verbatim>\<open>data_set_id\<close>. The payload also holds the row positions 0, 1, ... as its first
  field of every line, and the table read from it has them as an additional first column
  \<^verbatim>\<open>Unnamed: 0\<close>.
\<close>

theorem payload_round_trip_with_index_column:
  assumes "formats_round_trip rt (map drop_data_set_id rows)"
  shows "\<exists>t. read_csv (to_csv rt (map drop_data_set_id rows)) = Inr t
    \<and> names t = ''Unnamed: 0''
         # (if wvht_first rt then [''hm0'', ''tp''] else [''tp'', ''hm0'']) @ [''date'']
    \<and> length (cells t) = length rows
    \<and> column t ''Unnamed: 0'' = Inr (map string_of_nat [0..<length rows])
    \<and> to_datetime rt t ''date'' = Inr (map date rows)
    \<and> float_column rt t ''hm0'' = Inr (map hm0 rows)
    \<and> float_column rt t ''tp'' = Inr (map tp rows)
    \<and> column t ''data_set_id'' = Inl KeyError"
  using payload_table[OF assms] .




section \<open>The harness on concrete databases\<close>




text \<open>The theorem for C6 at that Dataset.\<close>

theorem payload_round_trip_with_index_column_witness:
  "formats_round_trip demo_rt (map drop_data_set_id (data entry_c))
   \<and> (\<exists>t. read_csv (to_csv demo_rt (map drop_data_set_id (data entry_c))) = Inr t
         \<and> to_datetime demo_rt t ''date'' = Inr (map date (data entry_c))
         \<and> float_column demo_rt t ''hm0'' = Inr (map hm0 (data entry_c))
         \<and> float_column demo_rt t ''tp'' = Inr (map tp (data entry_c)))"
proof -
  have h: "formats_round_trip demo_rt (map drop_data_set_id (data entry_c))"
    by (simp add: formats_round_trip_def entry_c_def drop_data_set_id_def demo_rt_def
        repr_float_demo_def parse_float_demo_def repr_time_demo_def parse_time_demo_def plain_def)
  from payload_round_trip_with_index_column[OF h] h
  show ?thesis by blast
qed

text \<open>Claim C6 as stated fails: the payload of a Dataset with one Observation has four fields per line, the first being the row position, and the table read from it has the four columns \<^verbatim>\<open>Unnamed: 0\<close>, \<^verbatim>\<open>hm0\<close>, \<^verbatim>\<open>tp\<close>, \<^verbatim>\<open>date\<close>: the payload is not made of timestamp, \<^verbatim>\<open>hm0\<close> and \<^verbatim>\<open>tp\<close> only, and reading it gives something else besides the Observations.\<close>

theorem payload_only_observations_counterexample:
  "to_csv demo_rt [(1, 7, (2005, 10))]
     = '',hm0,tp,date'' @ [CHR 0x0A] @ ''0,1.0,7.0,2005-01-01 00:10:00+00:00'' @ [CHR 0x0A]
   \<and> read_csv (to_csv demo_rt [(1, 7, (2005, 10))])
     = Inr \<lparr>names = [''Unnamed: 0'', ''hm0'', ''tp'', ''date''],
            cells = [[''0'', ''1.0'', ''7.0'', ''2005-01-01 00:10:00+00:00'']]\<rparr>"
  by code_simp

text \<open>The theorem for C8 at a Dataset that spans 2005 to 2008 and the draws 4, 3: the window is 2006 to 2007.\<close>

theorem window_strictly_inside_span_witness:
  "req_info mismatch_db = [(1, Some (2005, 10), Some (2008, 5))]
   \<and> year_of (2005, 10) + 2 \<le> year_of (2008, 5)
   \<and> build_requests [4, 3] (req_info mismatch_db)
       = Inr [\<lparr>req_id = 1, start_year = 2006, end_year = 2007\<rparr>]
   \<and> year_of (2005, 10) \<le> 2006 \<and> (2006 :: int) < 2007 \<and> 2007 < year_of (2008, 5)"
proof -
  have i: "req_info mismatch_db = [(1, Some (2005, 10), Some (2008, 5))]"
    by code_simp
  have s: "year_of (2005, 10) + 2 \<le> year_of (2008, 5)"
    by (simp add: year_of_def)
  have r: "build_requests [4, 3] (req_info mismatch_db)
       = Inr [\<lparr>req_id = 1, start_year = 2006, end_year = 2007\<rparr>]"
    by code_simp
  from window_strictly_inside_span[of "req_info mismatch_db" "[4, 3]"] r
  have "list_all2 (\<lambda>d r. req_id r = fst d
          \<and> (\<exists>lo hi. snd d = (Some lo, Some hi) \<and> year_of lo \<le> start_year r
                \<and> start_year r < end_year r \<and> end_year r < year_of hi))
        (req_info mismatch_db) [\<lparr>req_id = 1, start_year = 2006, end_year = 2007\<rparr>]"
    by blast
  then have "year_of (2005, 10) \<le> 2006 \<and> (2006 :: int) < 2007 \<and> 2007 < year_of (2008, 5)"
    unfolding i by simp
  with i s r show ?thesis by blast
qed

text \<open>The theorem for C9 at a database with a blob for Dataset 1 only: the full scan raises \<^verbatim>\<open>IndexError\<close> at identifier 2.\<close>

theorem missing_blob_raises_index_error_witness:
  "map fst (binary_data one_blob_db) = [1]
   \<and> full_scan_step demo_rt one_blob_db 2 = Inl IndexError
   \<and> scan (full_scan_step demo_rt one_blob_db) availabe_ids = Inl IndexError
   \<and> raised (benchmark demo_rt [] one_blob_db) \<noteq> None
   \<and> files (benchmark demo_rt [] one_blob_db) = []"
proof -
  have b: "map fst (binary_data one_blob_db) = [1]"
    by (simp add: one_blob_db_def)
  then have h: "\<forall>b \<in> set (binary_data one_blob_db). fst b \<noteq> 2"
    by (simp add: one_blob_db_def)
  note t = missing_blob_raises_index_error[OF h, of demo_rt "[]"]
  have one: "\<forall>j \<in> set [1]. \<exists>m. full_scan_step demo_rt one_blob_db j = Inr m"
  proof -
    have "full_scan_step demo_rt one_blob_db 1 =
       Inr (\<lparr>set_id = Array [1], min_date = Some (2005, 10), max_date = Some (2008, 5), tp_sum = 23\<rparr>,
            \<lparr>set_id = Scalar 1, min_date = Some (2005, 10), max_date = Some (2008, 5), tp_sum = 24\<rparr>)"
      by code_simp
    then show ?thesis by simp
  qed
  have ids: "availabe_ids = [1] @ 2 # [3..<58]"
    by code_simp
  have m: "2 \<in> set availabe_ids"
    unfolding ids by simp
  from t one have "scan (full_scan_step demo_rt one_blob_db) ([1] @ 2 # [3..<58]) = Inl IndexError"
    by blast
  with t b m show ?thesis unfolding ids[symmetric] by blast
qed

text \<open>The theorem for C10 at a database whose only Dataset spans 2005 to 2006.\<close>

theorem short_span_aborts_run_witness:
  "(2, Some (2005, 10), Some (2006, 40)) \<in> set (req_info short_db)
   \<and> year_of (2006, 40) - year_of (2005, 10) < 2
   \<and> benchmark demo_rt [] short_db = \<lparr>raised = Some ValueError, files = []\<rparr>"
proof -
  have i: "(2, Some (2005, 10), Some (2006, 40)) \<in> set (req_info short_db)"
    by code_simp
  have s: "year_of (2006, 40) - year_of (2005, 10) < 2"
    by (simp add: year_of_def)
  from short_span_aborts_run[OF i s, of "[]" "[]" demo_rt] i s
  show ?thesis by blast
qed

end
